theory Spec2Isabelle
  imports
    Main
    "HOL-Library.Multiset"
    "HOL-Library.Char_ord"
    "HOL-Library.List_Lexorder"
    "HOL-Library.Product_Lexorder"
begin

section \<open>Election results: loading, margin analysis and report composition\<close>

text \<open>
  The repository holds two versions of one Streamlit dashboard, \<^verbatim>\<open>app.py\<close> and
  \<^verbatim>\<open>v2app.py\<close>. Both read \<^verbatim>\<open>election.csv\<close> into a pandas data frame, compute a
  winner versus runner-up margin for every (Prabhag, Election_type) group and print PDF
  reports. A data frame is modelled as the list of its rows, in row order. A cell that pandas
  holds as NaN is \<open>None\<close>.
\<close>

subsection \<open>Strings\<close>

text \<open>
  A Python string is a sequence of Unicode code points. It is modelled by its UTF-8 encoding,
  the bytes the CSV file holds for it, so a \<open>string\<close> of the model is a byte string. Equality
  and concatenation of strings are those of their encodings, and the lexicographic order on
  byte strings is Python's order on the strings they encode, because UTF-8 keeps the order of
  the code points. \<open>utf8\<close> is the encoding of one code point; \<open>characters\<close> cuts an encoded
  string back into its characters, a new one starting at every byte that is not a
  continuation byte.
\<close>

definition utf8 :: "int \<Rightarrow> string" where
  "utf8 c =
     (if c < 0x80 then [char_of c]
      else if c < 0x800 then [char_of (0xC0 + c div 0x40), char_of (0x80 + c mod 0x40)]
      else if c < 0x10000 then
        [char_of (0xE0 + c div 0x1000), char_of (0x80 + c div 0x40 mod 0x40),
         char_of (0x80 + c mod 0x40)]
      else
        [char_of (0xF0 + c div 0x40000), char_of (0x80 + c div 0x1000 mod 0x40),
         char_of (0x80 + c div 0x40 mod 0x40), char_of (0x80 + c mod 0x40)])"

definition is_continuation :: "char \<Rightarrow> bool" where
  "is_continuation b \<longleftrightarrow> 0x80 \<le> (of_char b :: int) \<and> (of_char b :: int) < 0xC0"

fun characters :: "string \<Rightarrow> string list" where
  "characters [] = []"
| "characters (b # bs) =
     (case characters bs of
        [] \<Rightarrow> [[b]]
      | ch # chs \<Rightarrow> if is_continuation (hd ch) then (b # ch) # chs else [b] # ch # chs)"

text \<open>
  The code points that are whitespace for Python: those \<^verbatim>\<open>str.isspace\<close> accepts, which are
  the ones \<^verbatim>\<open>str.strip()\<close> removes from both ends of a string.
\<close>

definition whitespace :: "int list" where
  "whitespace =
     [0x09, 0x0A, 0x0B, 0x0C, 0x0D, 0x1C, 0x1D, 0x1E, 0x1F, 0x20, 0x85, 0xA0, 0x1680,
      0x2000, 0x2001, 0x2002, 0x2003, 0x2004, 0x2005, 0x2006, 0x2007, 0x2008, 0x2009, 0x200A,
      0x2028, 0x2029, 0x202F, 0x205F, 0x3000]"

definition isspace :: "string \<Rightarrow> bool" where
  "isspace ch \<longleftrightarrow> ch \<in> set (map utf8 whitespace)"

definition strip :: "string \<Rightarrow> string" where
  "strip s = concat (rev (dropWhile isspace (rev (dropWhile isspace (characters s)))))"

subsection \<open>64-bit integers\<close>

text \<open>
  The \<^verbatim>\<open>Votes\<close> column is int64 in pandas. A vote count is modelled by an \<open>int\<close>; the sums
  and differences that pandas takes of int64 columns wrap around silently, which \<open>wrap64\<close>
  writes out.
\<close>

definition int64 :: "int \<Rightarrow> bool" where
  "int64 v \<longleftrightarrow> - (2 ^ 63) \<le> v \<and> v < 2 ^ 63"

definition wrap64 :: "int \<Rightarrow> int" where
  "wrap64 v = (v + 2 ^ 63) mod 2 ^ 64 - 2 ^ 63"

subsection \<open>Exceptions\<close>

datatype error =
    TypeError      \<comment> \<open>\<^verbatim>\<open>'<' not supported between instances of 'str' and 'int'\<close>\<close>
  | ValueError     \<comment> \<open>\<^verbatim>\<open>Length mismatch\<close> when the pivot's columns are renamed\<close>
  | OverflowError  \<comment> \<open>\<^verbatim>\<open>Python int too large to convert to C long\<close>\<close>
  | RenderError    \<comment> \<open>whatever the rendering collaborator raises\<close>

subsection \<open>Rows of the table\<close>

text \<open>
  \<open>'c\<close> is the type of the cells of the columns \<^verbatim>\<open>Election_type\<close> and \<^verbatim>\<open>Name\<close>: in the
  loaded table they may be NaN (\<open>string option\<close>); in an aggregated table, whose group keys
  pandas has already cleared of NaN, they are strings.
\<close>

record 'c row =
  Prabhag :: string
  Election_type :: 'c
  Name :: 'c
  Party :: string
  Votes :: int

type_synonym vote_row = "string option row"
type_synonym agg_row = "string row"

text \<open>A loaded row whose cells are all present.\<close>

abbreviation vote :: "string \<Rightarrow> string \<Rightarrow> string \<Rightarrow> string \<Rightarrow> int \<Rightarrow> vote_row" where
  "vote p e n pa v \<equiv> \<lparr> Prabhag = p, Election_type = Some e, Name = Some n, Party = pa, Votes = v \<rparr>"

abbreviation entry :: "string \<Rightarrow> string \<Rightarrow> string \<Rightarrow> string \<Rightarrow> int \<Rightarrow> agg_row" where
  "entry p e n pa v \<equiv> \<lparr> Prabhag = p, Election_type = e, Name = n, Party = pa, Votes = v \<rparr>"

text \<open>
  The frame as \<^verbatim>\<open>pd.read_csv\<close> returns it: columns of strings, with NaN for an empty cell,
  and the \<^verbatim>\<open>Votes\<close> column as \<^verbatim>\<open>pd.to_numeric(..., errors='coerce')\<close> leaves it, a whole
  number or NaN for what is not a number.
\<close>

record raw_row =
  raw_Prabhag :: "string option"
  raw_Election_type :: "string option"
  raw_Name :: "string option"
  raw_Party :: "string option"
  raw_Votes :: "int option"

subsection \<open>\<^verbatim>\<open>load_data\<close> (app.py 17-28, v2app.py 19-31)\<close>

definition fillna :: "'a \<Rightarrow> 'a option \<Rightarrow> 'a" where
  "fillna d c = (case c of None \<Rightarrow> d | Some v \<Rightarrow> v)"

text \<open>\<^verbatim>\<open>astype(str)\<close> prints a NaN cell as \<^verbatim>\<open>nan\<close>.\<close>

definition astype_str :: "string option \<Rightarrow> string" where
  "astype_str c = (case c of None \<Rightarrow> ''nan'' | Some s \<Rightarrow> s)"

definition load_row :: "raw_row \<Rightarrow> vote_row" where
  "load_row r =
     \<lparr> Prabhag = strip (astype_str (raw_Prabhag r)),
       Election_type = map_option strip (raw_Election_type r),
       Name = raw_Name r,
       Party = strip (fillna ''Independent'' (raw_Party r)),
       Votes = fillna 0 (raw_Votes r) \<rparr>"

text \<open>
  The whole of \<^verbatim>\<open>load_data\<close> runs inside \<^verbatim>\<open>try\<close>, and the \<^verbatim>\<open>except\<close> branch returns an
  empty frame. Of the four column updates one can raise on a frame of this shape: the
  \<^verbatim>\<open>.str\<close> accessor refuses a column that holds no string, and that is what the
  \<^verbatim>\<open>Election_type\<close> column is (a float column of NaN) when the file has rows and none of
  them has an election type. The \<^verbatim>\<open>Party\<close> column has had its NaN cells filled before
  \<^verbatim>\<open>.str\<close> is asked of it.
\<close>

definition load_data :: "raw_row list \<Rightarrow> vote_row list" where
  "load_data raw =
     (if raw \<noteq> [] \<and> list_all (\<lambda>r. raw_Election_type r = None) raw then []
      else map load_row raw)"

subsection \<open>\<^verbatim>\<open>natural_sort_key\<close> and \<^verbatim>\<open>sorted(..., key=natural_sort_key)\<close>\<close>

text \<open>
  \<^verbatim>\<open>str.isdigit\<close> and \<^verbatim>\<open>int\<close> on the digits 0 to 9; a unit id written with the digits of
  another script is not covered.
\<close>

datatype sort_key = IntKey int | StrKey string

definition isdigit :: "string \<Rightarrow> bool" where
  "isdigit s \<longleftrightarrow> s \<noteq> [] \<and> list_all (\<lambda>c. CHR ''0'' \<le> c \<and> c \<le> CHR ''9'') s"

definition int_of_str :: "string \<Rightarrow> int" where
  "int_of_str s = foldl (\<lambda>n c. 10 * n + (int (of_char c) - 48)) 0 s"

definition natural_sort_key :: "string \<Rightarrow> sort_key" where
  "natural_sort_key s = (if isdigit s then IntKey (int_of_str s) else StrKey s)"

text \<open>Python 3's \<^verbatim>\<open><\<close> on the keys: two ints, two strs, or a TypeError.\<close>

fun py_lt :: "sort_key \<Rightarrow> sort_key \<Rightarrow> error + bool" where
  "py_lt (IntKey a) (IntKey b) = Inr (a < b)"
| "py_lt (StrKey a) (StrKey b) = Inr (a < b)"
| "py_lt _ _ = Inl TypeError"

text \<open>
  \<^verbatim>\<open>sorted\<close> is a stable comparison sort that only ever asks \<^verbatim>\<open>y < x\<close> of two keys and
  passes on the first exception a comparison raises. It is modelled by the stable insertion
  sort that walks each new element in from the right end of the sorted prefix.
\<close>

fun py_insert :: "('a \<Rightarrow> sort_key) \<Rightarrow> 'a \<Rightarrow> 'a list \<Rightarrow> error + 'a list" where
  "py_insert key x [] = Inr [x]"
| "py_insert key x (y # ys) =
     (case py_lt (key x) (key y) of
        Inl e \<Rightarrow> Inl e
      | Inr True \<Rightarrow> (case py_insert key x ys of Inl e \<Rightarrow> Inl e | Inr zs \<Rightarrow> Inr (y # zs))
      | Inr False \<Rightarrow> Inr (x # y # ys))"

fun py_sorted_rev :: "('a \<Rightarrow> sort_key) \<Rightarrow> 'a list \<Rightarrow> 'a list \<Rightarrow> error + 'a list" where
  "py_sorted_rev key acc [] = Inr acc"
| "py_sorted_rev key acc (x # xs) =
     (case py_insert key x acc of Inl e \<Rightarrow> Inl e | Inr acc' \<Rightarrow> py_sorted_rev key acc' xs)"

text \<open>The accumulator holds the sorted prefix in descending order, largest key first.\<close>

definition py_sorted :: "('a \<Rightarrow> sort_key) \<Rightarrow> 'a list \<Rightarrow> error + 'a list" where
  "py_sorted key xs = (case py_sorted_rev key [] xs of Inl e \<Rightarrow> Inl e | Inr acc \<Rightarrow> Inr (rev acc))"

text \<open>\<^verbatim>\<open>df['Prabhag'].unique()\<close>: the distinct values in order of first appearance.\<close>

definition unique :: "'a list \<Rightarrow> 'a list" where
  "unique xs = rev (remdups (rev xs))"

subsection \<open>The pandas operations the margin analysis uses\<close>

text \<open>
  \<^verbatim>\<open>df.groupby(keys)['Votes'].sum()\<close>: rows with a NaN key are dropped, every distinct
  key gives one entry holding the sum of its rows' values, and the entries come sorted by key
  (\<^verbatim>\<open>sort=True\<close> and \<^verbatim>\<open>dropna=True\<close> are the defaults). \<open>key\<close> returns \<open>None\<close> for a row
  with a NaN key cell. The sum of an int64 column is an int64 and wraps around.
\<close>

definition groupby_sum :: "('r \<Rightarrow> 'k::linorder option) \<Rightarrow> ('r \<Rightarrow> int) \<Rightarrow> 'r list \<Rightarrow> ('k \<times> int) list" where
  "groupby_sum key val df =
     map (\<lambda>k. (k, wrap64 (sum_list (map val (filter (\<lambda>r. key r = Some k) df)))))
         (sort (remdups (List.map_filter key df)))"

text \<open>
  \<^verbatim>\<open>groupby(keys).cumcount()\<close> numbers the rows of each group from 0 in row order;
  \<^verbatim>\<open>head(n)\<close> keeps the rows numbered below \<open>n\<close> and \<^verbatim>\<open>nth(n)\<close> the rows numbered \<open>n\<close>, both
  in the frame's row order. \<open>seen\<close> is the part of the frame already passed.
\<close>

fun cumcount_from :: "('a \<Rightarrow> 'k) \<Rightarrow> 'a list \<Rightarrow> 'a list \<Rightarrow> nat list" where
  "cumcount_from key seen [] = []"
| "cumcount_from key seen (x # xs) =
     length (filter (\<lambda>y. key y = key x) seen) # cumcount_from key (seen @ [x]) xs"

definition groupby_cumcount :: "('a \<Rightarrow> 'k) \<Rightarrow> 'a list \<Rightarrow> nat list" where
  "groupby_cumcount key df = cumcount_from key [] df"

definition groupby_head :: "('a \<Rightarrow> 'k) \<Rightarrow> nat \<Rightarrow> 'a list \<Rightarrow> 'a list" where
  "groupby_head key n df = map fst (filter (\<lambda>(x, c). c < n) (zip df (groupby_cumcount key df)))"

definition groupby_nth :: "('a \<Rightarrow> 'k) \<Rightarrow> nat \<Rightarrow> 'a list \<Rightarrow> 'a list" where
  "groupby_nth key n df = map fst (filter (\<lambda>(x, c). c = n) (zip df (groupby_cumcount key df)))"

text \<open>\<^verbatim>\<open>pd.merge(left, right, on=keys)\<close>: the inner join, in the order of the left rows.\<close>

definition pd_merge :: "('a \<Rightarrow> 'k) \<Rightarrow> 'a list \<Rightarrow> 'a list \<Rightarrow> ('a \<times> 'a) list" where
  "pd_merge on left right =
     concat (map (\<lambda>l. map (\<lambda>r. (l, r)) (filter (\<lambda>r. on r = on l) right)) left)"

subsection \<open>Aggregation and ranking, shared by both versions (app.py 71-72, v2app.py 212-213)\<close>

definition key4 :: "vote_row \<Rightarrow> (string \<times> string \<times> string \<times> string) option" where
  "key4 r =
     (case Election_type r of None \<Rightarrow> None
      | Some e \<Rightarrow> (case Name r of None \<Rightarrow> None
                   | Some n \<Rightarrow> Some (Prabhag r, e, n, Party r)))"

definition agg_sum :: "vote_row list \<Rightarrow> agg_row list" where
  "agg_sum data =
     map (\<lambda>((p, e, n, pa), v). \<lparr> Prabhag = p, Election_type = e, Name = n, Party = pa, Votes = v \<rparr>)
         (groupby_sum key4 Votes data)"

text \<open>
  \<^verbatim>\<open>sort_values(['Prabhag', 'Election_type', 'Votes'], ascending=[True, True, False])\<close>:
  a sort on several columns is a stable lexicographic sort in pandas.
\<close>

definition sort_values :: "agg_row list \<Rightarrow> agg_row list" where
  "sort_values agg = sort_key (\<lambda>r. (Prabhag r, Election_type r, - Votes r)) agg"

definition key2 :: "agg_row \<Rightarrow> string \<times> string" where
  "key2 r = (Prabhag r, Election_type r)"

subsection \<open>\<^verbatim>\<open>get_margin_analysis\<close> (app.py 70-80)\<close>

record margin_row =
  Prabhag_M :: string
  Election_type_M :: string
  Name_W :: string
  Party_W :: string
  Votes_W :: int
  Votes_R :: int
  Party_R :: string
  Name_R :: string
  Margin :: int

text \<open>Line 79 subtracts one int64 column from another: the difference wraps around.\<close>

definition margin_of :: "agg_row \<times> agg_row \<Rightarrow> margin_row" where
  "margin_of wr = (case wr of (w, r) \<Rightarrow>
     \<lparr> Prabhag_M = Prabhag w, Election_type_M = Election_type w,
       Name_W = Name w, Party_W = Party w, Votes_W = Votes w,
       Votes_R = Votes r, Party_R = Party r, Name_R = Name r,
       Margin = wrap64 (Votes w - Votes r) \<rparr>)"

definition get_margin_analysis :: "vote_row list \<Rightarrow> margin_row list" where
  "get_margin_analysis data =
     (let agg = agg_sum data;
          sorted_agg = sort_values agg;
          winners = groupby_head key2 1 sorted_agg;
          runners = groupby_nth key2 1 sorted_agg
      in map margin_of (pd_merge key2 winners runners))"

subsection \<open>The margin table of v2app.py (212-221)\<close>

text \<open>
  \<^verbatim>\<open>top_2.pivot(index=[Prabhag, Election_type], columns='Rank', values=[Name, Party, Votes])\<close>
  has one row for every distinct index value, sorted, and for each value column one column
  per distinct rank, sorted; a cell with no row behind it is NaN. Two rows with the same
  index and rank make \<^verbatim>\<open>pivot\<close> raise. The eight new column names fit only when exactly
  two ranks occur; otherwise the assignment to \<^verbatim>\<open>pivot.columns\<close> raises.
\<close>

record pivot_row =
  Prabhag_P :: string
  Category :: string
  Winner :: "string option"
  RunnerUp :: "string option"
  Win_Party :: "string option"
  Run_Party :: "string option"
  Win_Votes :: "int option"
  Run_Votes :: "int option"

record margin_pivot_row = pivot_row +
  Margin_P :: int
  Party_Fight :: "string option"

definition pivot_cell :: "(agg_row \<times> nat) list \<Rightarrow> string \<times> string \<Rightarrow> nat \<Rightarrow> (agg_row \<Rightarrow> 'v) \<Rightarrow> 'v option" where
  "pivot_cell ranked idx rank col =
     map_option (\<lambda>(r, k). col r) (find (\<lambda>(r, k). key2 r = idx \<and> k = rank) ranked)"

definition pivot :: "(agg_row \<times> nat) list \<Rightarrow> error + pivot_row list" where
  "pivot ranked =
     (if \<not> distinct (map (\<lambda>(r, k). (key2 r, k)) ranked) then Inl ValueError
      else case sort (remdups (map snd ranked)) of
        [k1, k2] \<Rightarrow>
          Inr (map (\<lambda>idx.
                 \<lparr> Prabhag_P = fst idx, Category = snd idx,
                   Winner = pivot_cell ranked idx k1 Name,
                   RunnerUp = pivot_cell ranked idx k2 Name,
                   Win_Party = pivot_cell ranked idx k1 Party,
                   Run_Party = pivot_cell ranked idx k2 Party,
                   Win_Votes = pivot_cell ranked idx k1 Votes,
                   Run_Votes = pivot_cell ranked idx k2 Votes \<rparr>)
               (sort (remdups (map (\<lambda>(r, k). key2 r) ranked))))
      | _ \<Rightarrow> Inl ValueError)"

text \<open>
  The pivot is built from the values of three columns of different types, so pandas holds its
  cells as Python objects and the vote counts in it are Python integers, which do not wrap:
  \<^verbatim>\<open>Win_Votes - Run_Votes.fillna(0)\<close> is the exact difference, and \<^verbatim>\<open>.astype(int)\<close> raises
  OverflowError when it is given a difference that does not fit into int64, and ValueError
  when it is given NaN. \<^verbatim>\<open>Win_Party + " vs " + Run_Party.fillna("N/A")\<close> is NaN where
  \<^verbatim>\<open>Win_Party\<close> is.
\<close>

definition add_margin :: "pivot_row \<Rightarrow> error + margin_pivot_row" where
  "add_margin p =
     (case Win_Votes p of
        None \<Rightarrow> Inl ValueError
      | Some w \<Rightarrow>
          if int64 (w - fillna 0 (Run_Votes p))
          then Inr (pivot_row.extend p
                 (margin_pivot_row.fields (w - fillna 0 (Run_Votes p))
                    (map_option (\<lambda>wp. wp @ '' vs '' @ fillna ''N/A'' (Run_Party p)) (Win_Party p))))
          else Inl OverflowError)"

fun traverse :: "('a \<Rightarrow> error + 'b) \<Rightarrow> 'a list \<Rightarrow> error + 'b list" where
  "traverse f [] = Inr []"
| "traverse f (x # xs) =
     (case f x of Inl e \<Rightarrow> Inl e
      | Inr y \<Rightarrow> (case traverse f xs of Inl e \<Rightarrow> Inl e | Inr ys \<Rightarrow> Inr (y # ys)))"

text \<open>
  The table \<^verbatim>\<open>pivot\<close> as it stands after line 221. Lines 223-224 then reorder its rows for
  display (by the numeric value of \<^verbatim>\<open>Prabhag\<close>, then by category); they change no row.
\<close>

definition margin_pivot :: "vote_row list \<Rightarrow> error + margin_pivot_row list" where
  "margin_pivot data =
     (let m_agg = sort_values (agg_sum data);
          top_2 = groupby_head key2 2 m_agg;
          Rank = map Suc (groupby_cumcount key2 top_2)
      in case pivot (zip top_2 Rank) of
           Inl e \<Rightarrow> Inl e
         | Inr pv \<Rightarrow> traverse add_margin pv)"

subsection \<open>Text of numbers\<close>

fun digits :: "nat \<Rightarrow> string" where
  "digits n = (if n < 10 then [char_of (48 + n)] else digits (n div 10) @ [char_of (48 + n mod 10)])"

text \<open>\<^verbatim>\<open>f"{n}"\<close> and \<^verbatim>\<open>f"{v:,}"\<close> (a comma between groups of three digits).\<close>

fun group3 :: "string \<Rightarrow> string" where
  "group3 (a # b # c # d # ds) = a # b # c # CHR '','' # group3 (d # ds)"
| "group3 ds = ds"

definition fmt_comma :: "int \<Rightarrow> string" where
  "fmt_comma v = (if v < 0 then ''-'' else []) @ rev (group3 (rev (digits (nat \<bar>v\<bar>))))"

subsection \<open>Report pages\<close>

text \<open>
  A document is the list of the pages the program opens with \<^verbatim>\<open>pdf.add_page()\<close>, each with
  its title cell and what the program puts under it. The footer that FPDF prints on every
  sheet (page number and watermark), and the continuation sheet its automatic page break
  opens when the lines of a fallback table run past the bottom margin, are the library's part
  and are not modelled, nor is the file that \<^verbatim>\<open>pdf.output\<close> writes from the pages;
  \<^verbatim>\<open>pdf.cell\<close> and the construction of the figure by \<^verbatim>\<open>px.bar\<close> are taken to succeed. The
  rendering collaborator is a parameter \<open>render\<close>: it gets the unit or category the figure is
  titled with and the frame the figure is drawn from, and returns the image or raises. In
  v2app.py it stands for the body of the \<^verbatim>\<open>try\<close> block (plotly's \<^verbatim>\<open>to_image\<close> through
  kaleido, the temporary file and \<^verbatim>\<open>pdf.image\<close>), in app.py for the same calls, which no
  \<^verbatim>\<open>try\<close> guards there.
\<close>

datatype 'img body = Chart 'img | Fallback "string list"

record 'img page =
  title :: string
  body :: "'img body"

definition isin_filter :: "string list \<Rightarrow> string list \<Rightarrow> vote_row list \<Rightarrow> vote_row list" where
  "isin_filter prabhag_list party_list data =
     filter (\<lambda>r. Prabhag r \<in> set prabhag_list \<and> Party r \<in> set party_list) data"

subsection \<open>\<^verbatim>\<open>generate_pdf\<close> (v2app.py 86-186)\<close>

record chart_row =
  Name_C :: string
  Party_C :: string
  Election_type_C :: string
  Votes_C :: int

definition key3 :: "vote_row \<Rightarrow> (string \<times> string \<times> string) option" where
  "key3 r =
     (case Name r of None \<Rightarrow> None
      | Some n \<Rightarrow> (case Election_type r of None \<Rightarrow> None
                   | Some e \<Rightarrow> Some (n, Party r, e)))"

definition chart_data_v2 :: "vote_row list \<Rightarrow> chart_row list" where
  "chart_data_v2 p_df =
     sort_key (\<lambda>c. (Party_C c, - Votes_C c))
       (map (\<lambda>((n, pa, e), v). \<lparr> Name_C = n, Party_C = pa, Election_type_C = e, Votes_C = v \<rparr>)
            (groupby_sum key3 Votes p_df))"

definition fallback_text :: "chart_row list \<Rightarrow> string list" where
  "fallback_text chart_data =
     ''Candidate Vote Summary (Chart unavailable):'' #
     map (\<lambda>c. Name_C c @ '' ('' @ Party_C c @ ''): '' @ fmt_comma (Votes_C c) @ '' votes'') chart_data"

text \<open>
  One pass of the \<^verbatim>\<open>for\<close> loop over \<^verbatim>\<open>report_prabhags\<close>: the page of one unit. The
  \<^verbatim>\<open>except\<close> branch writes the table of candidates in place of the picture.
\<close>

definition report_page_v2 ::
  "(string \<Rightarrow> chart_row list \<Rightarrow> error + 'img) \<Rightarrow> vote_row list \<Rightarrow> string \<Rightarrow> 'img page" where
  "report_page_v2 render filtered_df prabhag =
     (let p_df = filter (\<lambda>r. Prabhag r = prabhag) filtered_df;
          chart_data = chart_data_v2 p_df;
          content = (case render prabhag chart_data of
                       Inr img \<Rightarrow> Chart img
                     | Inl e \<Rightarrow> Fallback (fallback_text chart_data))
      in \<lparr> title = ''Election Report: Prabhag '' @ prabhag, body = content \<rparr>)"

text \<open>The loop; \<open>pdf\<close> is the pages added so far.\<close>

fun report_loop_v2 ::
  "(string \<Rightarrow> chart_row list \<Rightarrow> error + 'img) \<Rightarrow> vote_row list \<Rightarrow>
   'img page list \<Rightarrow> string list \<Rightarrow> 'img page list" where
  "report_loop_v2 render filtered_df pdf [] = pdf"
| "report_loop_v2 render filtered_df pdf (prabhag # rest) =
     report_loop_v2 render filtered_df (pdf @ [report_page_v2 render filtered_df prabhag]) rest"

text \<open>
  \<open>Inr None\<close> is the \<^verbatim>\<open>return None\<close> of line 98, \<open>Inl\<close> an exception that leaves the function.
  The watermark only goes into the footer.
\<close>

definition generate_pdf ::
  "(string \<Rightarrow> chart_row list \<Rightarrow> error + 'img) \<Rightarrow> vote_row list \<Rightarrow> string list \<Rightarrow> string list \<Rightarrow>
   string \<Rightarrow> error + 'img page list option" where
  "generate_pdf render data prabhag_list party_list watermark_text =
     (let filtered_df = isin_filter prabhag_list party_list data
      in case py_sorted natural_sort_key (unique (map Prabhag filtered_df)) of
           Inl e \<Rightarrow> Inl e
         | Inr report_prabhags \<Rightarrow>
             if report_prabhags = [] then Inr None
             else Inr (Some (report_loop_v2 render filtered_df [] report_prabhags)))"

subsection \<open>The two reports of app.py (168-216)\<close>

definition key_name_party :: "vote_row \<Rightarrow> (string \<times> string) option" where
  "key_name_party r = (case Name r of None \<Rightarrow> None | Some n \<Rightarrow> Some (n, Party r))"

text \<open>Here nothing catches what the renderer raises: the exception ends the loop.\<close>

fun result_loop ::
  "(string \<Rightarrow> ((string \<times> string) \<times> int) list \<Rightarrow> error + 'img) \<Rightarrow> vote_row list \<Rightarrow>
   'img page list \<Rightarrow> string list \<Rightarrow> error + 'img page list" where
  "result_loop render f_df pdf [] = Inr pdf"
| "result_loop render f_df pdf (prabhag # rest) =
     (let p_df = filter (\<lambda>r. Prabhag r = prabhag) f_df;
          chart_data = groupby_sum key_name_party Votes p_df
      in case render prabhag chart_data of
           Inl e \<Rightarrow> Inl e
         | Inr img \<Rightarrow>
             result_loop render f_df
               (pdf @ [\<lparr> title = ''Result: Prabhag '' @ prabhag, body = Chart img \<rparr>])
               rest)"

definition full_result_pdf ::
  "(string \<Rightarrow> ((string \<times> string) \<times> int) list \<Rightarrow> error + 'img) \<Rightarrow> vote_row list \<Rightarrow> string list \<Rightarrow>
   string list \<Rightarrow> string \<Rightarrow> error + 'img page list" where
  "full_result_pdf render df selected_pdf_prabhags selected_pdf_parties watermark =
     (let f_df = isin_filter selected_pdf_prabhags selected_pdf_parties df
      in case py_sorted natural_sort_key (unique (map Prabhag f_df)) of
           Inl e \<Rightarrow> Inl e
         | Inr report_prabhags \<Rightarrow> result_loop render f_df [] report_prabhags)"

text \<open>
  The margin report: the margin table is computed from the whole frame, its rows for the
  selected units are kept, and every election type among them gets one page, in sorted order.
  The list of selected parties is not used. The renderer gets the rows of the type; ordering
  them by margin for the bars is its part.
\<close>

fun margin_loop ::
  "(string \<Rightarrow> margin_row list \<Rightarrow> error + 'img) \<Rightarrow> margin_row list \<Rightarrow>
   'img page list \<Rightarrow> string list \<Rightarrow> error + 'img page list" where
  "margin_loop render m_report_df pdf [] = Inr pdf"
| "margin_loop render m_report_df pdf (etype # rest) =
     (let type_df = filter (\<lambda>m. Election_type_M m = etype) m_report_df
      in case render etype type_df of
           Inl e \<Rightarrow> Inl e
         | Inr img \<Rightarrow>
             margin_loop render m_report_df
               (pdf @ [\<lparr> title = ''Margin Report: '' @ etype, body = Chart img \<rparr>])
               rest)"

definition margin_report_pdf ::
  "(string \<Rightarrow> margin_row list \<Rightarrow> error + 'img) \<Rightarrow> vote_row list \<Rightarrow> string list \<Rightarrow> string \<Rightarrow>
   error + 'img page list" where
  "margin_report_pdf render df selected_pdf_prabhags watermark =
     (let m_report_df = filter (\<lambda>m. Prabhag_M m \<in> set selected_pdf_prabhags) (get_margin_analysis df)
      in margin_loop render m_report_df []
           (sort (remdups (map Election_type_M m_report_df))))"

subsection \<open>Groups\<close>

text \<open>
  The aggregated entries of one (Prabhag, Election_type) group, in the order of the
  aggregated table, and the same group as it lies in the table after \<^verbatim>\<open>sort_values\<close>.
\<close>

definition group_entries :: "vote_row list \<Rightarrow> string \<times> string \<Rightarrow> agg_row list" where
  "group_entries data g = filter (\<lambda>r. key2 r = g) (agg_sum data)"

definition ranked_group :: "vote_row list \<Rightarrow> string \<times> string \<Rightarrow> agg_row list" where
  "ranked_group data g = filter (\<lambda>r. key2 r = g) (sort_values (agg_sum data))"

definition group_M :: "margin_row \<Rightarrow> string \<times> string" where
  "group_M m = (Prabhag_M m, Election_type_M m)"

definition group_P :: "margin_pivot_row \<Rightarrow> string \<times> string" where
  "group_P p = (Prabhag_P p, Category p)"

text \<open>Some group has at least two candidates, so the pivot has a column for rank 2.\<close>

definition has_runner :: "vote_row list \<Rightarrow> bool" where
  "has_runner data \<longleftrightarrow> (\<exists>g. 2 \<le> length (ranked_group data g))"

text \<open>Rank 1 and, when present, rank 2 of a ranked group.\<close>

fun top_two :: "'a list \<Rightarrow> ('a \<times> 'a option) option" where
  "top_two [] = None"
| "top_two [w] = Some (w, None)"
| "top_two (w # r # rest) = Some (w, Some r)"

text \<open>The key of an aggregated entry, and the row the pivot holds for a group whose two
  best entries are \<open>w\<close> and, when there is one, \<open>r\<close>.\<close>

definition key4_of :: "agg_row \<Rightarrow> string \<times> string \<times> string \<times> string" where
  "key4_of r = (Prabhag r, Election_type r, Name r, Party r)"

definition pivot_margin_of :: "agg_row \<Rightarrow> agg_row option \<Rightarrow> margin_pivot_row" where
  "pivot_margin_of w ro =
     \<lparr> Prabhag_P = Prabhag w, Category = Election_type w,
       Winner = Some (Name w), RunnerUp = map_option Name ro,
       Win_Party = Some (Party w), Run_Party = map_option Party ro,
       Win_Votes = Some (Votes w), Run_Votes = map_option Votes ro,
       Margin_P = Votes w - fillna 0 (map_option Votes ro),
       Party_Fight = Some (Party w @ '' vs '' @ fillna ''N/A'' (map_option Party ro)) \<rparr>"

section \<open>Properties\<close>

subsection \<open>Loading\<close>

lemma concat_characters: "concat (characters s) = s"
  by (induction s) (auto split: list.splits)

lemma characters_nonempty: "[] \<notin> set (characters s)"
  by (induction s) (auto split: list.splits)

lemma dropWhile_rev_Nil:
  "dropWhile P (rev (dropWhile P xs)) = [] \<longleftrightarrow> list_all P xs"
proof
  assume "dropWhile P (rev (dropWhile P xs)) = []"
  then have a: "\<forall>x\<in>set (dropWhile P xs). P x"
    by (simp add: dropWhile_eq_Nil_conv)
  show "list_all P xs"
  proof (cases "dropWhile P xs")
    case Nil
    then show ?thesis by (simp add: dropWhile_eq_Nil_conv list_all_iff)
  next
    case (Cons y ys)
    then have "\<not> P y" using hd_dropWhile [of P xs] by auto
    with a Cons show ?thesis by simp
  qed
next
  assume "list_all P xs"
  then have "dropWhile P xs = []"
    by (simp add: dropWhile_eq_Nil_conv list_all_iff)
  then show "dropWhile P (rev (dropWhile P xs)) = []"
    by (simp only: rev.simps dropWhile.simps)
qed

text \<open>A string is stripped to nothing exactly when all its characters are whitespace.\<close>

lemma strip_empty_iff: "strip s = [] \<longleftrightarrow> list_all isspace (characters s)"
proof -
  define r where "r = dropWhile isspace (rev (dropWhile isspace (characters s)))"
  have "set r \<subseteq> set (characters s)"
    unfolding r_def by (auto dest!: set_dropWhileD)
  then have ne: "[] \<notin> set r"
    using characters_nonempty [of s] by blast
  have "strip s = concat (rev r)"
    by (simp only: strip_def r_def)
  then have "strip s = [] \<longleftrightarrow> (\<forall>x\<in>set r. x = [])"
    by simp
  also have "\<dots> \<longleftrightarrow> r = []"
    using ne by (cases r) auto
  also have "\<dots> \<longleftrightarrow> list_all isspace (characters s)"
    unfolding r_def by (rule dropWhile_rev_Nil)
  finally show ?thesis .
qed

lemma strip_Independent: "strip ''Independent'' = ''Independent''"
  by code_simp

text \<open>
  Whitespace outside ASCII is stripped as well: a no-break space (U+00A0) before and an
  ideographic space (U+3000) after the name of a party, and a cell that holds a no-break
  space and nothing else.
\<close>

lemma strip_unicode_whitespace:
  "strip (utf8 0xA0 @ '' BJP'' @ utf8 0x3000 @ '' '') = ''BJP''"
  "strip (utf8 0xA0) = []"
  by code_simp+

lemma load_data_rows: "load_data raw = [] \<or> load_data raw = map load_row raw"
  by (simp add: load_data_def)

text \<open>
  Claim C9, as stated: every record whose party field is absent or blank is given the party
  \<^verbatim>\<open>Independent\<close>, so every loaded record has a non-empty party. A party cell of two spaces
  is not NaN, so \<^verbatim>\<open>fillna\<close> leaves it and \<^verbatim>\<open>str.strip\<close> empties it: the loaded party is
  the empty string.
\<close>

theorem load_blank_party_is_empty:
  "map Party (load_data [\<lparr> raw_Prabhag = Some ''5'', raw_Election_type = Some ''General'',
      raw_Name = Some ''A'', raw_Party = Some ''  '', raw_Votes = Some 120 \<rparr>]) = [[]]"
  by code_simp

text \<open>
  Claim C9, amended: in every row of the loaded table, a party cell that was absent (NaN,
  which is how the CSV reader returns an empty cell) has become \<^verbatim>\<open>Independent\<close>, and a
  party cell that was present has been kept with the whitespace at its two ends stripped; so
  the loaded party is empty exactly when the cell was present and held nothing but
  whitespace characters, those of Unicode included.
\<close>

theorem load_party_default:
  "i < length (load_data raw) \<Longrightarrow>
   (raw_Party (raw ! i) = None \<longrightarrow> Party (load_data raw ! i) = ''Independent'') \<and>
   (\<forall>s. raw_Party (raw ! i) = Some s \<longrightarrow> Party (load_data raw ! i) = strip s) \<and>
   (Party (load_data raw ! i) = [] \<longleftrightarrow>
      (\<exists>s. raw_Party (raw ! i) = Some s \<and> list_all isspace (characters s)))"
proof -
  assume i: "i < length (load_data raw)"
  then have "load_data raw \<noteq> []" by auto
  then have eq: "load_data raw = map load_row raw"
    using load_data_rows [of raw] by simp
  with i have "i < length raw" by simp
  then have "load_data raw ! i = load_row (raw ! i)"
    by (simp add: eq)
  then show ?thesis
    by (cases "raw_Party (raw ! i)")
       (simp_all add: load_row_def fillna_def strip_Independent strip_empty_iff)
qed

theorem load_party_default_witness:
  "0 < length (load_data [\<lparr> raw_Prabhag = Some ''5'', raw_Election_type = Some ''General'',
      raw_Name = Some ''A'', raw_Party = None, raw_Votes = Some 120 \<rparr>]) \<and>
   Party (load_data [\<lparr> raw_Prabhag = Some ''5'', raw_Election_type = Some ''General'',
      raw_Name = Some ''A'', raw_Party = None, raw_Votes = Some 120 \<rparr>] ! 0) = ''Independent''"
proof -
  let ?raw = "[\<lparr> raw_Prabhag = Some ''5'', raw_Election_type = Some ''General'',
      raw_Name = Some ''A'', raw_Party = None, raw_Votes = Some 120 \<rparr>]"
  have len: "0 < length (load_data ?raw)"
    by (simp add: load_data_def)
  from load_party_default [OF len] len show ?thesis
    by simp
qed

subsection \<open>Natural sort\<close>

lemma natural_sort_digits_example:
  "py_sorted natural_sort_key [''2'', ''10'', ''1''] = Inr [''1'', ''2'', ''10'']"
  by code_simp

text \<open>
  Claim C3: sorting the unit ids 2, 10, 1, Ward-A with the natural-sort key should give
  1, 2, 10, Ward-A, numeric keys before string keys. The key of a digit string is an int and
  the key of any other string is the string itself, and Python 3 refuses to compare the two:
  on this input \<^verbatim>\<open>sorted\<close> raises TypeError instead of returning a list.
\<close>

theorem natural_sort_mixed_raises:
  "py_sorted natural_sort_key [''2'', ''10'', ''1'', ''Ward-A''] = Inl TypeError"
  by code_simp

subsection \<open>Unopposed groups\<close>

text \<open>
  Claim C2: one margin result for every (unit, category) group, and for a group with a single
  candidate a result with no runner-up and the winner's votes as margin. On a table whose only
  group has one candidate, \<^verbatim>\<open>get_margin_analysis\<close> of app.py returns no row at all (the
  inner merge finds no runner-up row to join), and the margin table of v2app.py raises: with
  no second rank the pivot has five columns and cannot take the eight names.
\<close>

theorem unopposed_group_lost:
  "get_margin_analysis [\<lparr> Prabhag = ''5'', Election_type = Some ''General'', Name = Some ''A'',
      Party = ''PartyX'', Votes = 120 \<rparr>] = [] \<and>
   margin_pivot [\<lparr> Prabhag = ''5'', Election_type = Some ''General'', Name = Some ''A'',
      Party = ''PartyX'', Votes = 120 \<rparr>] = Inl ValueError"
  by code_simp

subsection \<open>Wrap-around\<close>

lemma int64_wrap64: "int64 (wrap64 v)"
  by (simp add: int64_def wrap64_def)

lemma wrap64_id: "int64 v \<Longrightarrow> wrap64 v = v"
  by (simp add: int64_def wrap64_def)

lemma wrap64_upper:
  assumes "0 \<le> d" "d < 2 ^ 64"
  shows "wrap64 d = (if d < 2 ^ 63 then d else d - 2 ^ 64)"
proof (cases "d < 2 ^ 63")
  case True
  with assms show ?thesis by (simp add: wrap64_id int64_def)
next
  case False
  have "(d + 2 ^ 63) mod 2 ^ 64 = (d + 2 ^ 63 - 2 ^ 64) mod 2 ^ 64"
    by (simp only: minus_mod_self2)
  also have "\<dots> = d + 2 ^ 63 - 2 ^ 64"
    using False assms by (intro mod_pos_pos_trivial) auto
  finally have "wrap64 d = d - 2 ^ 64" by (simp add: wrap64_def)
  with False show ?thesis by simp
qed

text \<open>The wrapped difference of two int64 values, the first at least the second.\<close>

lemma wrap64_diff:
  assumes "int64 w" "int64 r" "r \<le> w"
  shows "0 \<le> wrap64 (w - r) \<longleftrightarrow> w - r < 2 ^ 63"
    and "wrap64 (w - r) = 0 \<longleftrightarrow> w = r"
proof -
  define d where "d = w - r"
  have "(2::int) ^ 64 = 2 ^ 63 + 2 ^ 63" by simp
  with assms have d: "0 \<le> d" "d < 2 ^ 64" unfolding d_def int64_def by linarith+
  have w: "wrap64 d = (if d < 2 ^ 63 then d else d - 2 ^ 64)"
    using d by (rule wrap64_upper)
  have "0 \<le> wrap64 d \<longleftrightarrow> d < 2 ^ 63"
    unfolding w using d by simp
  then show "0 \<le> wrap64 (w - r) \<longleftrightarrow> w - r < 2 ^ 63"
    by (simp only: d_def)
  have "wrap64 d = 0 \<longleftrightarrow> d = 0"
    unfolding w using d by simp
  then show "wrap64 (w - r) = 0 \<longleftrightarrow> w = r"
    by (simp add: d_def)
qed

lemma agg_sum_int64: "e \<in> set (agg_sum data) \<Longrightarrow> int64 (Votes e)"
  by (auto simp: agg_sum_def groupby_sum_def int64_wrap64)

subsection \<open>Rows of a group: \<^verbatim>\<open>cumcount\<close>, \<^verbatim>\<open>head\<close>, \<^verbatim>\<open>nth\<close> and the merge\<close>

lemma length_cumcount_from [simp]: "length (cumcount_from key seen xs) = length xs"
  by (induction xs arbitrary: seen) auto

lemma head_of_group_from:
  "map fst (filter (\<lambda>(x, c). key x = g \<and> c < n) (zip xs (cumcount_from key seen xs))) =
   take (n - length (filter (\<lambda>y. key y = g) seen)) (filter (\<lambda>x. key x = g) xs)"
proof (induction xs arbitrary: seen)
  case Nil
  then show ?case by simp
next
  case (Cons x xs)
  let ?k = "length (filter (\<lambda>y. key y = g) seen)"
  show ?case
  proof (cases "key x = g")
    case True
    show ?thesis
    proof (cases "?k < n")
      case True
      then obtain m where m: "n - ?k = Suc m" "n - Suc ?k = m"
        by (cases "n - ?k") auto
      with \<open>key x = g\<close> True show ?thesis
        using Cons.IH [of "seen @ [x]"] by simp
    next
      case False
      then have "n - ?k = 0" "n - Suc ?k = 0" by auto
      with \<open>key x = g\<close> False show ?thesis
        using Cons.IH [of "seen @ [x]"] by simp
    qed
  next
    case False
    then show ?thesis
      using Cons.IH [of "seen @ [x]"] by simp
  qed
qed

lemma nth_of_group_from:
  "map fst (filter (\<lambda>(x, c). key x = g \<and> c = n) (zip xs (cumcount_from key seen xs))) =
   (if length (filter (\<lambda>y. key y = g) seen) \<le> n
    then take 1 (drop (n - length (filter (\<lambda>y. key y = g) seen)) (filter (\<lambda>x. key x = g) xs))
    else [])"
proof (induction xs arbitrary: seen)
  case Nil
  then show ?case by simp
next
  case (Cons x xs)
  let ?k = "length (filter (\<lambda>y. key y = g) seen)"
  show ?case
  proof (cases "key x = g")
    case True
    consider "?k = n" | "?k < n" | "n < ?k" by linarith
    then show ?thesis
    proof cases
      case 1
      with \<open>key x = g\<close> show ?thesis
        using Cons.IH [of "seen @ [x]"] by simp
    next
      case 2
      then obtain m where m: "n - ?k = Suc m" "n - Suc ?k = m"
        by (cases "n - ?k") auto
      with \<open>key x = g\<close> 2 show ?thesis
        using Cons.IH [of "seen @ [x]"] by simp
    next
      case 3
      with \<open>key x = g\<close> show ?thesis
        using Cons.IH [of "seen @ [x]"] by simp
    qed
  next
    case False
    then show ?thesis
      using Cons.IH [of "seen @ [x]"] by simp
  qed
qed

lemma filter_map_fst_zip:
  "filter P (map fst (filter Q zs)) = map fst (filter (\<lambda>(x, c). P x \<and> Q (x, c)) zs)"
  by (induction zs) auto

lemma filter_groupby_head:
  "filter (\<lambda>x. key x = g) (groupby_head key n xs) = take n (filter (\<lambda>x. key x = g) xs)"
  using head_of_group_from [of key g n xs "[]"]
  by (simp add: groupby_head_def groupby_cumcount_def filter_map_fst_zip case_prod_unfold)

lemma filter_groupby_nth:
  "filter (\<lambda>x. key x = g) (groupby_nth key n xs) = take 1 (drop n (filter (\<lambda>x. key x = g) xs))"
  using nth_of_group_from [of key g n xs "[]"]
  by (simp add: groupby_nth_def groupby_cumcount_def filter_map_fst_zip case_prod_unfold)

lemma filter_pd_merge:
  "filter (\<lambda>(l, r). on l = g) (pd_merge on left right) =
   concat (map (\<lambda>l. map (\<lambda>r. (l, r)) (filter (\<lambda>r. on r = g) right)) (filter (\<lambda>l. on l = g) left))"
proof (induction left)
  case Nil
  then show ?case by (simp add: pd_merge_def)
next
  case (Cons l left)
  have "filter (\<lambda>(l', r). on l' = g) (map (\<lambda>r. (l, r)) (filter (\<lambda>r. on r = on l) right)) =
        (if on l = g then map (\<lambda>r. (l, r)) (filter (\<lambda>r. on r = g) right) else [])"
    by (simp add: filter_map comp_def)
  with Cons show ?case by (simp add: pd_merge_def)
qed

lemma key2_margin_of: "group_M (margin_of wr) = key2 (fst wr)"
  by (cases wr) (simp add: group_M_def margin_of_def key2_def)

lemma margin_rows_of_group:
  "filter (\<lambda>m. group_M m = g) (get_margin_analysis data) =
   (case ranked_group data g of w # r # rest \<Rightarrow> [margin_of (w, r)] | _ \<Rightarrow> [])"
proof -
  let ?S = "sort_values (agg_sum data)"
  let ?G = "ranked_group data g"
  have "filter (\<lambda>m. group_M m = g) (get_margin_analysis data) =
        map margin_of (filter (\<lambda>(l, r). key2 l = g)
          (pd_merge key2 (groupby_head key2 1 ?S) (groupby_nth key2 1 ?S)))"
    by (simp add: get_margin_analysis_def Let_def filter_map comp_def case_prod_unfold key2_margin_of)
  also have "\<dots> = map margin_of (concat (map (\<lambda>l. map (\<lambda>r. (l, r)) (take 1 (drop 1 ?G))) (take 1 ?G)))"
    by (simp add: filter_pd_merge filter_groupby_head filter_groupby_nth ranked_group_def)
  also have "\<dots> = (case ?G of w # r # rest \<Rightarrow> [margin_of (w, r)] | _ \<Rightarrow> [])"
    by (cases ?G; cases "tl ?G") auto
  finally show ?thesis .
qed

subsection \<open>The ranking inside a group\<close>

lemma insort_key_cong_on:
  "(\<And>y. y \<in> set ys \<Longrightarrow> (f x \<le> f y) = (h x \<le> h y)) \<Longrightarrow> insort_key f x ys = insort_key h x ys"
  by (induction ys) auto

lemma sort_key_cong_on:
  "(\<And>x y. x \<in> set xs \<Longrightarrow> y \<in> set xs \<Longrightarrow> (f x \<le> f y) = (h x \<le> h y)) \<Longrightarrow>
   sort_key f xs = sort_key h xs"
proof (induction xs)
  case Nil
  then show ?case by simp
next
  case (Cons x xs)
  have "sort_key f xs = sort_key h xs" using Cons by simp
  moreover have "insort_key f x (sort_key h xs) = insort_key h x (sort_key h xs)"
    by (rule insort_key_cong_on) (use Cons.prems in simp)
  ultimately show ?case by simp
qed

lemma ranked_group_sort:
  "ranked_group data g = sort_key (\<lambda>r. - Votes r) (group_entries data g)"
proof -
  have "ranked_group data g =
        sort_key (\<lambda>r. (Prabhag r, Election_type r, - Votes r)) (group_entries data g)"
    by (simp add: ranked_group_def group_entries_def sort_values_def filter_sort)
  also have "\<dots> = sort_key (\<lambda>r. - Votes r) (group_entries data g)"
    by (rule sort_key_cong_on) (auto simp: group_entries_def key2_def)
  finally show ?thesis .
qed

lemma mset_ranked_group: "mset (ranked_group data g) = mset (group_entries data g)"
  by (simp add: ranked_group_sort)

lemma map_key4_agg_sum:
  "map key4_of (agg_sum data) = sort (remdups (List.map_filter key4 data))"
  by (simp add: agg_sum_def groupby_sum_def key4_of_def comp_def case_prod_unfold)

lemma agg_sum_strict:
  "sorted_wrt (\<lambda>x y. key4_of x < key4_of y) (agg_sum data)"
proof -
  have "sorted (map key4_of (agg_sum data))" "distinct (map key4_of (agg_sum data))"
    by (simp_all add: map_key4_agg_sum)
  then have "sorted_wrt (<) (map key4_of (agg_sum data))"
    by (simp add: strict_sorted_iff)
  then show ?thesis by (simp add: sorted_wrt_map)
qed

lemma group_entries_strict:
  "sorted_wrt (\<lambda>x y. (Name x, Party x) < (Name y, Party y)) (group_entries data g)"
proof -
  have "sorted_wrt (\<lambda>x y. key4_of x < key4_of y) (group_entries data g)"
    unfolding group_entries_def by (rule sorted_wrt_filter) (rule agg_sum_strict)
  then show ?thesis
    by (rule sorted_wrt_mono_rel [rotated]) (auto simp: group_entries_def key2_def key4_of_def)
qed

lemma stable_sorted_wrt:
  assumes "sorted (map f ys)" and "\<And>k. sorted_wrt R (filter (\<lambda>y. f y = k) ys)"
  shows "sorted_wrt (\<lambda>x y. f x < f y \<or> (f x = f y \<and> R x y)) ys"
  using assms
proof (induction ys)
  case Nil
  then show ?case by simp
next
  case (Cons y ys)
  have tl: "sorted_wrt R (filter (\<lambda>z. f z = k) ys)" for k
    using Cons.prems(2) [of k] by (cases "f y = k") auto
  have "f y < f z \<or> (f y = f z \<and> R y z)" if "z \<in> set ys" for z
  proof (cases "f y = f z")
    case True
    with Cons.prems(2) [of "f y"] that show ?thesis by auto
  next
    case False
    with Cons.prems(1) that show ?thesis by auto
  qed
  moreover have "sorted_wrt (\<lambda>x y. f x < f y \<or> (f x = f y \<and> R x y)) ys"
    using Cons.IH Cons.prems(1) tl by simp
  ultimately show ?case by simp
qed

lemma ranked_group_order:
  "sorted_wrt (\<lambda>x y. Votes y < Votes x \<or> (Votes x = Votes y \<and> (Name x, Party x) < (Name y, Party y)))
     (ranked_group data g)"
proof -
  let ?f = "\<lambda>r::agg_row. - Votes r"
  let ?R = "\<lambda>x y::agg_row. (Name x, Party x) < (Name y, Party y)"
  have 1: "sorted (map ?f (ranked_group data g))"
    by (simp add: ranked_group_sort)
  have 2: "sorted_wrt ?R (filter (\<lambda>y. ?f y = k) (ranked_group data g))" for k
    unfolding ranked_group_sort sort_key_stable
    by (rule sorted_wrt_filter) (rule group_entries_strict)
  have "sorted_wrt (\<lambda>x y. ?f x < ?f y \<or> (?f x = ?f y \<and> ?R x y)) (ranked_group data g)"
    by (rule stable_sorted_wrt [OF 1 2])
  then show ?thesis
    by (rule sorted_wrt_mono_rel [rotated]) auto
qed

subsection \<open>Ranks and cells of the pivot\<close>

lemma cumcount_from_lower:
  "(y, c) \<in> set (zip xs (cumcount_from key seen xs)) \<Longrightarrow>
   length (filter (\<lambda>z. key z = key y) seen) \<le> c"
proof (induction xs arbitrary: seen)
  case Nil
  then show ?case by simp
next
  case (Cons x xs)
  from Cons.prems consider "y = x" "c = length (filter (\<lambda>z. key z = key x) seen)"
    | "(y, c) \<in> set (zip xs (cumcount_from key (seen @ [x]) xs))"
    by auto
  then show ?case
  proof cases
    case 1
    then show ?thesis by simp
  next
    case 2
    from Cons.IH [OF 2] show ?thesis by (simp split: if_splits)
  qed
qed

lemma distinct_key_cumcount_from:
  "distinct (map (\<lambda>(x, c). (key x, c)) (zip xs (cumcount_from key seen xs)))"
proof (induction xs arbitrary: seen)
  case Nil
  then show ?case by simp
next
  case (Cons x xs)
  have "(key x, length (filter (\<lambda>z. key z = key x) seen)) \<notin>
        (\<lambda>(x, c). (key x, c)) ` set (zip xs (cumcount_from key (seen @ [x]) xs))"
  proof
    assume "(key x, length (filter (\<lambda>z. key z = key x) seen)) \<in>
        (\<lambda>(x, c). (key x, c)) ` set (zip xs (cumcount_from key (seen @ [x]) xs))"
    then obtain y c where yc: "(y, c) \<in> set (zip xs (cumcount_from key (seen @ [x]) xs))"
      and "key y = key x" and c: "c = length (filter (\<lambda>z. key z = key x) seen)"
      by auto
    from cumcount_from_lower [OF yc] \<open>key y = key x\<close> c show False by simp
  qed
  with Cons.IH [of "seen @ [x]"] show ?case by simp
qed

lemma zip_map_Suc: "zip xs (map f cs) = map (\<lambda>(x, c). (x, f c)) (zip xs cs)"
  by (induction xs arbitrary: cs) (auto simp: zip_Cons1 split: list.splits)

lemma distinct_ranked:
  "distinct (map (\<lambda>(r, k). (key r, k)) (zip xs (map Suc (groupby_cumcount key xs))))"
proof -
  have "map (\<lambda>(r, k). (key r, k)) (zip xs (map Suc (groupby_cumcount key xs))) =
        map (\<lambda>(k, c). (k, Suc c)) (map (\<lambda>(x, c). (key x, c)) (zip xs (cumcount_from key [] xs)))"
    by (simp add: zip_map_Suc groupby_cumcount_def comp_def case_prod_unfold)
  moreover have "inj (\<lambda>(k::'b, c). (k, Suc c))"
    by (auto simp: inj_on_def)
  ultimately show ?thesis
    using distinct_key_cumcount_from [of key xs "[]"]
    by (auto simp: distinct_map inj_on_def)
qed

lemma mem_cumcount_iff:
  "n \<in> set (groupby_cumcount key xs) \<longleftrightarrow> (\<exists>g. n < length (filter (\<lambda>x. key x = g) xs))"
proof -
  let ?cs = "cumcount_from key [] xs"
  have nth: "map fst (filter (\<lambda>(x, c). key x = g \<and> c = n) (zip xs ?cs)) =
             take 1 (drop n (filter (\<lambda>x. key x = g) xs))" for g
    using nth_of_group_from [of key g n xs "[]"] by simp
  have "n \<in> set ?cs \<longleftrightarrow> (\<exists>x. (x, n) \<in> set (zip xs ?cs))"
  proof -
    have "set ?cs = snd ` set (zip xs ?cs)"
      by (metis length_cumcount_from map_snd_zip set_map)
    then show ?thesis by force
  qed
  also have "\<dots> \<longleftrightarrow> (\<exists>g. filter (\<lambda>(x, c). key x = g \<and> c = n) (zip xs ?cs) \<noteq> [])"
    by (auto simp: filter_empty_conv)
  also have "\<dots> \<longleftrightarrow> (\<exists>g. take 1 (drop n (filter (\<lambda>x. key x = g) xs)) \<noteq> [])"
    using nth by (metis (no_types, lifting) map_is_Nil_conv)
  also have "\<dots> \<longleftrightarrow> (\<exists>g. n < length (filter (\<lambda>x. key x = g) xs))"
    by (simp add: not_le)
  finally show ?thesis by (simp add: groupby_cumcount_def)
qed

lemma find_filter:
  "find P xs = (case filter P xs of [] \<Rightarrow> None | x # _ \<Rightarrow> Some x)"
  by (induction xs) auto

lemma fst_filter_zip_map:
  "map fst (filter (\<lambda>(x, k). Q x k) (zip xs (map f cs))) =
   map fst (filter (\<lambda>(x, c). Q x (f c)) (zip xs cs))"
  by (simp add: zip_map_Suc filter_map comp_def case_prod_unfold)

lemma pivot_cell_rank:
  "pivot_cell (zip xs (map Suc (groupby_cumcount key2 xs))) g (Suc n) col =
   (case drop n (filter (\<lambda>x. key2 x = g) xs) of [] \<Rightarrow> None | r # _ \<Rightarrow> Some (col r))"
proof -
  let ?zs = "zip xs (map Suc (groupby_cumcount key2 xs))"
  let ?P = "\<lambda>(r, k). key2 r = g \<and> k = Suc n"
  have "map fst (filter ?P ?zs) = take 1 (drop n (filter (\<lambda>x. key2 x = g) xs))"
    using fst_filter_zip_map [of "\<lambda>x k. key2 x = g \<and> k = Suc n" xs Suc "groupby_cumcount key2 xs"]
          nth_of_group_from [of key2 g n xs "[]"]
    by (simp add: groupby_cumcount_def)
  moreover have "pivot_cell ?zs g (Suc n) col =
        (case map fst (filter ?P ?zs) of [] \<Rightarrow> None | r # _ \<Rightarrow> Some (col r))"
    unfolding pivot_cell_def find_filter by (cases "filter ?P ?zs") auto
  ultimately show ?thesis
    by (cases "drop n (filter (\<lambda>x. key2 x = g) xs)") auto
qed

lemma traverse_all2:
  "traverse f xs = Inr ys \<Longrightarrow> list_all2 (\<lambda>x y. f x = Inr y) xs ys"
  by (induction xs arbitrary: ys) (auto split: sum.splits)

lemma traverse_mem:
  "traverse f xs = Inr ys \<Longrightarrow> x \<in> set xs \<Longrightarrow> \<exists>y. f x = Inr y"
  by (induction xs arbitrary: ys) (auto split: sum.splits)

lemma traverse_error:
  "(\<And>x. x \<in> set xs \<Longrightarrow> (\<exists>y. f x = Inr y) \<or> f x = Inl e) \<Longrightarrow>
   (\<exists>ys. traverse f xs = Inr ys) \<or> traverse f xs = Inl e"
  by (induction xs) (fastforce split: sum.splits)+

lemma traverse_total:
  "(\<And>x. x \<in> set xs \<Longrightarrow> \<exists>y. f x = Inr y) \<Longrightarrow> \<exists>ys. traverse f xs = Inr ys"
  by (induction xs) (fastforce split: sum.splits)+

lemma filter_all2:
  "list_all2 P xs ys \<Longrightarrow> (\<And>x y. P x y \<Longrightarrow> h y = x) \<Longrightarrow>
   list_all2 P (filter (\<lambda>x. x = g) xs) (filter (\<lambda>y. h y = g) ys)"
  by (induction rule: list_all2_induct) auto

lemma filter_eq_distinct:
  "distinct xs \<Longrightarrow> filter (\<lambda>x. x = g) xs = (if g \<in> set xs then [g] else [])"
  by (induction xs) auto

lemma top2_group:
  "filter (\<lambda>r. key2 r = g) (groupby_head key2 2 (sort_values (agg_sum data))) =
   take 2 (ranked_group data g)"
  by (simp add: filter_groupby_head ranked_group_def)

lemma ranked_group_key: "r \<in> set (ranked_group data g) \<Longrightarrow> key2 r = g"
  by (simp add: ranked_group_def)

lemma ranks_set:
  fixes data
  defines "T \<equiv> groupby_head key2 2 (sort_values (agg_sum data))"
  shows "set (map Suc (groupby_cumcount key2 T)) =
         {k. \<exists>g. 0 < k \<and> k \<le> 2 \<and> k \<le> length (ranked_group data g)}"
proof -
  have mem: "n \<in> set (groupby_cumcount key2 T) \<longleftrightarrow>
        (\<exists>g. n < 2 \<and> n < length (ranked_group data g))" for n
    unfolding mem_cumcount_iff T_def top2_group by auto
  show ?thesis
  proof (rule set_eqI)
    fix k
    show "k \<in> set (map Suc (groupby_cumcount key2 T)) \<longleftrightarrow>
          k \<in> {k. \<exists>g. 0 < k \<and> k \<le> 2 \<and> k \<le> length (ranked_group data g)}"
    proof (cases k)
      case 0
      then show ?thesis by auto
    next
      case (Suc n)
      have "k \<in> set (map Suc (groupby_cumcount key2 T)) \<longleftrightarrow> n \<in> set (groupby_cumcount key2 T)"
        using Suc by auto
      also have "\<dots> \<longleftrightarrow> (\<exists>g. n < 2 \<and> n < length (ranked_group data g))"
        by (rule mem)
      also have "\<dots> \<longleftrightarrow> (\<exists>g. 0 < k \<and> k \<le> 2 \<and> k \<le> length (ranked_group data g))"
        using Suc by (simp add: Suc_le_eq)
      finally show ?thesis by simp
    qed
  qed
qed

lemma ranks_sorted_two:
  fixes data
  defines "T \<equiv> groupby_head key2 2 (sort_values (agg_sum data))"
  assumes "has_runner data"
  shows "sort (remdups (map snd (zip T (map Suc (groupby_cumcount key2 T))))) = [Suc 0, Suc (Suc 0)]"
proof -
  have len: "length (map Suc (groupby_cumcount key2 T)) = length T"
    by (simp add: groupby_cumcount_def)
  from assms(2) obtain g where g: "2 \<le> length (ranked_group data g)"
    by (auto simp: has_runner_def)
  have "set (map Suc (groupby_cumcount key2 T)) = {Suc 0, 2}"
    unfolding T_def ranks_set
  proof (rule set_eqI)
    fix k
    have "k \<in> {Suc 0, 2} \<Longrightarrow> 0 < k \<and> k \<le> 2 \<and> k \<le> length (ranked_group data g)"
      using g by auto
    moreover have "0 < k \<and> k \<le> 2 \<Longrightarrow> k \<in> {Suc 0, 2}"
      by auto
    ultimately show "k \<in> {k. \<exists>g. 0 < k \<and> k \<le> 2 \<and> k \<le> length (ranked_group data g)} \<longleftrightarrow>
          k \<in> {Suc 0, 2}"
      by blast
  qed
  then have "sort (remdups (map Suc (groupby_cumcount key2 T))) = sorted_list_of_set {Suc 0, 2}"
    by (metis sorted_list_of_set_sort_remdups)
  moreover have "map snd (zip T (map Suc (groupby_cumcount key2 T))) = map Suc (groupby_cumcount key2 T)"
    using len by (simp only: map_snd_zip)
  ultimately show ?thesis by simp
qed

lemma ranks_sorted_short:
  fixes data
  defines "T \<equiv> groupby_head key2 2 (sort_values (agg_sum data))"
  assumes "\<not> has_runner data"
  shows "length (sort (remdups (map snd (zip T (map Suc (groupby_cumcount key2 T)))))) \<le> 1"
proof -
  have len: "length (map Suc (groupby_cumcount key2 T)) = length T"
    by (simp add: groupby_cumcount_def)
  have short: "length (ranked_group data g) < 2" for g
    using assms(2) unfolding has_runner_def by (meson not_le)
  have "set (map Suc (groupby_cumcount key2 T)) \<subseteq> {Suc 0}"
    unfolding T_def ranks_set
  proof
    fix k
    assume "k \<in> {k. \<exists>g. 0 < k \<and> k \<le> 2 \<and> k \<le> length (ranked_group data g)}"
    then obtain g where "0 < k" "k \<le> length (ranked_group data g)" by blast
    with short [of g] show "k \<in> {Suc 0}" by simp
  qed
  then have "card (set (map Suc (groupby_cumcount key2 T))) \<le> card {Suc 0}"
    by (intro card_mono) auto
  then have "card (set (map Suc (groupby_cumcount key2 T))) \<le> 1"
    by simp
  moreover have "map snd (zip T (map Suc (groupby_cumcount key2 T))) = map Suc (groupby_cumcount key2 T)"
    using len by (simp only: map_snd_zip)
  ultimately show ?thesis by (simp add: length_remdups_card_conv)
qed

lemma pivot_keys:
  "map (\<lambda>(r, k). key2 r) (zip T (map Suc (groupby_cumcount key2 T))) = map key2 T"
proof -
  have "map (\<lambda>(r, k). key2 r) (zip T (map Suc (groupby_cumcount key2 T))) =
        map key2 (map fst (zip T (map Suc (groupby_cumcount key2 T))))"
    by (simp add: comp_def case_prod_unfold)
  then show ?thesis by (simp add: groupby_cumcount_def)
qed

lemma pivot_index_set:
  "set (sort (remdups (map key2 (groupby_head key2 2 (sort_values (agg_sum data)))))) =
   {g. ranked_group data g \<noteq> []}"
proof -
  let ?T = "groupby_head key2 2 (sort_values (agg_sum data))"
  have "g \<in> key2 ` set ?T \<longleftrightarrow> ranked_group data g \<noteq> []" for g
  proof -
    have "g \<in> key2 ` set ?T \<longleftrightarrow> filter (\<lambda>r. key2 r = g) ?T \<noteq> []"
      by (auto simp: filter_empty_conv)
    then show ?thesis by (simp add: top2_group)
  qed
  then show ?thesis by auto
qed

lemma pivot_cells:
  fixes data
  defines "T \<equiv> groupby_head key2 2 (sort_values (agg_sum data))"
  defines "ranked \<equiv> zip T (map Suc (groupby_cumcount key2 T))"
  assumes "top_two (ranked_group data g) = Some (w, ro)"
  shows "pivot_cell ranked g (Suc 0) col = Some (col w)"
    and "pivot_cell ranked g (Suc (Suc 0)) col = map_option col ro"
proof -
  have 1: "pivot_cell ranked g (Suc 0) col =
        (case take 2 (ranked_group data g) of [] \<Rightarrow> None | r # _ \<Rightarrow> Some (col r))"
    unfolding ranked_def T_def pivot_cell_rank top2_group by simp
  have 2: "pivot_cell ranked g (Suc (Suc 0)) col =
        (case drop 1 (take 2 (ranked_group data g)) of [] \<Rightarrow> None | r # _ \<Rightarrow> Some (col r))"
    unfolding ranked_def T_def pivot_cell_rank top2_group by simp
  from assms(3) show "pivot_cell ranked g (Suc 0) col = Some (col w)"
    unfolding 1 by (cases "ranked_group data g" rule: top_two.cases) auto
  from assms(3) show "pivot_cell ranked g (Suc (Suc 0)) col = map_option col ro"
    unfolding 2 by (cases "ranked_group data g" rule: top_two.cases) auto
qed

lemma top_two_key:
  "top_two (ranked_group data g) = Some (w, ro) \<Longrightarrow> key2 w = g"
proof -
  assume a: "top_two (ranked_group data g) = Some (w, ro)"
  then have "w \<in> set (ranked_group data g)"
    by (cases "ranked_group data g" rule: top_two.cases) auto
  then show ?thesis by (rule ranked_group_key)
qed

lemma add_margin_pivot_row:
  fixes data
  defines "T \<equiv> groupby_head key2 2 (sort_values (agg_sum data))"
  defines "ranked \<equiv> zip T (map Suc (groupby_cumcount key2 T))"
  assumes "top_two (ranked_group data g) = Some (w, ro)"
  shows "add_margin
           \<lparr> Prabhag_P = fst g, Category = snd g,
             Winner = pivot_cell ranked g (Suc 0) Name,
             RunnerUp = pivot_cell ranked g (Suc (Suc 0)) Name,
             Win_Party = pivot_cell ranked g (Suc 0) Party,
             Run_Party = pivot_cell ranked g (Suc (Suc 0)) Party,
             Win_Votes = pivot_cell ranked g (Suc 0) Votes,
             Run_Votes = pivot_cell ranked g (Suc (Suc 0)) Votes \<rparr> =
         (if int64 (Votes w - fillna 0 (map_option Votes ro))
          then Inr (pivot_margin_of w ro) else Inl OverflowError)"
proof -
  have g: "fst g = Prabhag w" "snd g = Election_type w"
    using top_two_key [OF assms(3)] by (auto simp: key2_def)
  show ?thesis
    unfolding ranked_def T_def pivot_cells [OF assms(3)] g
    by (simp add: add_margin_def pivot_margin_of_def pivot_row.defs margin_pivot_row.defs)
qed

subsection \<open>The margin table of v2app.py, group by group\<close>

lemma margin_pivot_error:
  assumes "\<not> has_runner data"
  shows "margin_pivot data = Inl ValueError"
proof -
  let ?T = "groupby_head key2 2 (sort_values (agg_sum data))"
  let ?ranked = "zip ?T (map Suc (groupby_cumcount key2 ?T))"
  define ys where "ys = sort (remdups (map snd ?ranked))"
  have "length ys \<le> 1"
    unfolding ys_def by (rule ranks_sorted_short [OF assms])
  then have "pivot ?ranked = Inl ValueError"
    unfolding pivot_def ys_def [symmetric] by (cases ys; cases "tl ys") auto
  then show ?thesis by (simp add: margin_pivot_def Let_def)
qed

lemma add_margin_group:
  "add_margin p = Inr q \<Longrightarrow> group_P q = (Prabhag_P p, Category p)"
  by (auto simp: add_margin_def group_P_def pivot_row.defs margin_pivot_row.defs
      split: option.splits if_splits)

lemma margin_pivot_rows:
  assumes "margin_pivot data = Inr rows"
  shows "filter (\<lambda>p. group_P p = g) rows =
         (case top_two (ranked_group data g) of None \<Rightarrow> []
          | Some (w, ro) \<Rightarrow> [pivot_margin_of w ro])"
proof -
  let ?T = "groupby_head key2 2 (sort_values (agg_sum data))"
  let ?ranked = "zip ?T (map Suc (groupby_cumcount key2 ?T))"
  let ?idxs = "sort (remdups (map key2 ?T))"
  let ?prow = "\<lambda>idx. \<lparr> Prabhag_P = fst idx, Category = snd idx,
             Winner = pivot_cell ?ranked idx (Suc 0) Name,
             RunnerUp = pivot_cell ?ranked idx (Suc (Suc 0)) Name,
             Win_Party = pivot_cell ?ranked idx (Suc 0) Party,
             Run_Party = pivot_cell ?ranked idx (Suc (Suc 0)) Party,
             Win_Votes = pivot_cell ?ranked idx (Suc 0) Votes,
             Run_Votes = pivot_cell ?ranked idx (Suc (Suc 0)) Votes \<rparr>"
  let ?P = "\<lambda>idx q. add_margin (?prow idx) = Inr q"
  have hr: "has_runner data"
    using assms margin_pivot_error by fastforce
  have "pivot ?ranked = Inr (map ?prow ?idxs)"
    unfolding pivot_def
    by (simp add: distinct_ranked ranks_sorted_two [OF hr] pivot_keys)
  with assms have "traverse add_margin (map ?prow ?idxs) = Inr rows"
    by (simp add: margin_pivot_def Let_def)
  then have "list_all2 ?P ?idxs rows"
    by (auto dest!: traverse_all2 simp: list_all2_map1)
  then have all2: "list_all2 ?P (filter (\<lambda>x. x = g) ?idxs) (filter (\<lambda>q. group_P q = g) rows)"
    by (rule filter_all2) (auto dest: add_margin_group)
  have idx: "filter (\<lambda>x. x = g) ?idxs = (if ranked_group data g \<noteq> [] then [g] else [])"
    using pivot_index_set [of data] by (simp add: filter_eq_distinct)
  show ?thesis
  proof (cases "top_two (ranked_group data g)")
    case None
    then have "ranked_group data g = []"
      by (cases "ranked_group data g" rule: top_two.cases) auto
    with all2 idx None show ?thesis by simp
  next
    case (Some wr)
    obtain w ro where wr: "wr = (w, ro)" by (cases wr)
    from Some wr have ne: "ranked_group data g \<noteq> []" by auto
    from Some wr have "add_margin (?prow g) =
        (if int64 (Votes w - fillna 0 (map_option Votes ro))
         then Inr (pivot_margin_of w ro) else Inl OverflowError)"
      by (intro add_margin_pivot_row) simp
    with all2 idx ne have "filter (\<lambda>q. group_P q = g) rows = [pivot_margin_of w ro]"
      by (auto simp: list_all2_Cons1 split: if_splits)
    with Some wr show ?thesis by simp
  qed
qed

text \<open>Where v2app.py builds its table, every difference in it has fitted into int64.\<close>

lemma margin_pivot_fits:
  assumes "margin_pivot data = Inr rows" and "top_two (ranked_group data g) = Some (w, ro)"
  shows "int64 (Votes w - fillna 0 (map_option Votes ro))"
proof -
  let ?T = "groupby_head key2 2 (sort_values (agg_sum data))"
  let ?ranked = "zip ?T (map Suc (groupby_cumcount key2 ?T))"
  let ?idxs = "sort (remdups (map key2 ?T))"
  let ?prow = "\<lambda>idx. \<lparr> Prabhag_P = fst idx, Category = snd idx,
             Winner = pivot_cell ?ranked idx (Suc 0) Name,
             RunnerUp = pivot_cell ?ranked idx (Suc (Suc 0)) Name,
             Win_Party = pivot_cell ?ranked idx (Suc 0) Party,
             Run_Party = pivot_cell ?ranked idx (Suc (Suc 0)) Party,
             Win_Votes = pivot_cell ?ranked idx (Suc 0) Votes,
             Run_Votes = pivot_cell ?ranked idx (Suc (Suc 0)) Votes \<rparr>"
  have hr: "has_runner data"
    using assms(1) margin_pivot_error by fastforce
  have "pivot ?ranked = Inr (map ?prow ?idxs)"
    unfolding pivot_def
    by (simp add: distinct_ranked ranks_sorted_two [OF hr] pivot_keys)
  with assms(1) have tr: "traverse add_margin (map ?prow ?idxs) = Inr rows"
    by (simp add: margin_pivot_def Let_def)
  from assms(2) have "ranked_group data g \<noteq> []" by auto
  then have "g \<in> set ?idxs"
    using pivot_index_set [of data] by simp
  then have "?prow g \<in> set (map ?prow ?idxs)" by simp
  from traverse_mem [OF tr this] obtain q where "add_margin (?prow g) = Inr q" ..
  moreover have "add_margin (?prow g) =
        (if int64 (Votes w - fillna 0 (map_option Votes ro))
         then Inr (pivot_margin_of w ro) else Inl OverflowError)"
    using assms(2) by (intro add_margin_pivot_row)
  ultimately show ?thesis by (simp split: if_splits)
qed

text \<open>
  With a second rank in the table, the only exception left to v2app.py is the overflow of a
  difference, and there is none when every difference fits.
\<close>

lemma margin_pivot_total:
  assumes "has_runner data"
  shows "(\<exists>rows. margin_pivot data = Inr rows) \<or> margin_pivot data = Inl OverflowError"
    and "(\<And>g w ro. top_two (ranked_group data g) = Some (w, ro) \<Longrightarrow>
            int64 (Votes w - fillna 0 (map_option Votes ro))) \<Longrightarrow>
         \<exists>rows. margin_pivot data = Inr rows"
proof -
  let ?T = "groupby_head key2 2 (sort_values (agg_sum data))"
  let ?ranked = "zip ?T (map Suc (groupby_cumcount key2 ?T))"
  let ?idxs = "sort (remdups (map key2 ?T))"
  let ?prow = "\<lambda>idx. \<lparr> Prabhag_P = fst idx, Category = snd idx,
             Winner = pivot_cell ?ranked idx (Suc 0) Name,
             RunnerUp = pivot_cell ?ranked idx (Suc (Suc 0)) Name,
             Win_Party = pivot_cell ?ranked idx (Suc 0) Party,
             Run_Party = pivot_cell ?ranked idx (Suc (Suc 0)) Party,
             Win_Votes = pivot_cell ?ranked idx (Suc 0) Votes,
             Run_Votes = pivot_cell ?ranked idx (Suc (Suc 0)) Votes \<rparr>"
  have piv: "pivot ?ranked = Inr (map ?prow ?idxs)"
    unfolding pivot_def
    by (simp add: distinct_ranked ranks_sorted_two [OF assms] pivot_keys)
  have row: "\<exists>g w ro. top_two (ranked_group data g) = Some (w, ro) \<and>
        add_margin p = (if int64 (Votes w - fillna 0 (map_option Votes ro))
                        then Inr (pivot_margin_of w ro) else Inl OverflowError)"
    if "p \<in> set (map ?prow ?idxs)" for p
  proof -
    from that obtain g where g: "g \<in> set ?idxs" and p: "p = ?prow g" by auto
    from g have "ranked_group data g \<noteq> []"
      using pivot_index_set [of data] by auto
    then obtain w ro where tt: "top_two (ranked_group data g) = Some (w, ro)"
      by (cases "ranked_group data g" rule: top_two.cases) auto
    then have "add_margin (?prow g) =
        (if int64 (Votes w - fillna 0 (map_option Votes ro))
         then Inr (pivot_margin_of w ro) else Inl OverflowError)"
      by (intro add_margin_pivot_row)
    with p tt show ?thesis by blast
  qed
  have "(\<exists>q. add_margin p = Inr q) \<or> add_margin p = Inl OverflowError"
    if "p \<in> set (map ?prow ?idxs)" for p
    using row [OF that] by (auto split: if_splits)
  then have "(\<exists>rows. traverse add_margin (map ?prow ?idxs) = Inr rows) \<or>
        traverse add_margin (map ?prow ?idxs) = Inl OverflowError"
    by (rule traverse_error)
  with piv show "(\<exists>rows. margin_pivot data = Inr rows) \<or> margin_pivot data = Inl OverflowError"
    by (simp add: margin_pivot_def Let_def)
  assume fits: "\<And>g w ro. top_two (ranked_group data g) = Some (w, ro) \<Longrightarrow>
            int64 (Votes w - fillna 0 (map_option Votes ro))"
  have "\<exists>q. add_margin p = Inr q" if "p \<in> set (map ?prow ?idxs)" for p
    using row [OF that] fits by auto
  then obtain rows where "traverse add_margin (map ?prow ?idxs) = Inr rows"
    using traverse_total [of "map ?prow ?idxs" add_margin] by blast
  with piv show "\<exists>rows. margin_pivot data = Inr rows"
    by (simp add: margin_pivot_def Let_def)
qed

subsection \<open>Winner, runner-up and margin of a group\<close>

lemma top_two_ge2:
  "2 \<le> length xs \<Longrightarrow> \<exists>w r rest. xs = w # r # rest"
  by (cases xs rule: top_two.cases) auto

lemma length_ranked_group: "length (ranked_group data g) = length (group_entries data g)"
  by (metis mset_ranked_group size_mset)

lemma ranked_group_desc: "sorted (map (\<lambda>r. - Votes r) (ranked_group data g))"
  by (simp add: ranked_group_sort)

lemma margin_rows_top_two:
  "filter (\<lambda>m. group_M m = g) (get_margin_analysis data) =
   (case top_two (ranked_group data g) of Some (w, Some r) \<Rightarrow> [margin_of (w, r)] | _ \<Rightarrow> [])"
  unfolding margin_rows_of_group
  by (cases "ranked_group data g" rule: top_two.cases) auto

lemma ranked_group_subset: "set (ranked_group data g) \<subseteq> set (agg_sum data)"
  by (auto simp: ranked_group_def sort_values_def)

lemma set_ranked_group: "set (ranked_group data g) = set (group_entries data g)"
  using mset_ranked_group [of data g] by (rule mset_eq_setD)

text \<open>No difference overflows when no aggregated total is negative.\<close>

lemma nonneg_fits:
  assumes "\<forall>e\<in>set (agg_sum data). 0 \<le> Votes e"
    and "top_two (ranked_group data g) = Some (w, ro)"
  shows "int64 (Votes w - fillna 0 (map_option Votes ro))"
proof (cases ro)
  case None
  from assms(2) have "w \<in> set (ranked_group data g)"
    by (cases "ranked_group data g" rule: top_two.cases) auto
  then have "int64 (Votes w)"
    using ranked_group_subset agg_sum_int64 by blast
  with None show ?thesis by (simp add: fillna_def)
next
  case (Some r)
  with assms(2) obtain rest where G: "ranked_group data g = w # r # rest"
    by (cases "ranked_group data g" rule: top_two.cases) auto
  then have "w \<in> set (agg_sum data)" "r \<in> set (agg_sum data)"
    using ranked_group_subset [of data g] by auto
  then have "int64 (Votes w)" "0 \<le> Votes r"
    using agg_sum_int64 assms(1) by blast+
  moreover have "Votes r \<le> Votes w"
    using ranked_group_desc [of data g] G by simp
  ultimately have "int64 (Votes w - Votes r)"
    unfolding int64_def by linarith
  with Some show ?thesis by (simp add: fillna_def)
qed

text \<open>
  Claim C4, as stated: in every (unit, category) group with at least two candidates the
  computed margin is at least 0. The totals and the margin of app.py are int64 values that
  wrap around. Below, the two rows of A sum to \<open>2 ^ 63\<close>, which wraps to \<open>- (2 ^ 63)\<close>, so B
  with \<open>2 ^ 63 - 1\<close> votes is ranked first, and the difference of the two totals,
  \<open>2 ^ 64 - 1\<close>, wraps to a margin of \<open>- 1\<close>.
\<close>

theorem margin_negative_on_overflow:
  "get_margin_analysis
     [vote ''5'' ''General'' ''A'' ''PartyX'' 4611686018427387904,
      vote ''5'' ''General'' ''A'' ''PartyX'' 4611686018427387904,
      vote ''5'' ''General'' ''B'' ''PartyY'' 9223372036854775807] =
   [\<lparr> Prabhag_M = ''5'', Election_type_M = ''General'', Name_W = ''B'', Party_W = ''PartyY'',
      Votes_W = 9223372036854775807, Votes_R = - 9223372036854775808, Party_R = ''PartyX'',
      Name_R = ''A'', Margin = - 1 \<rparr>]"
  by code_simp

text \<open>
  Claim C4, amended: in a (unit, category) group with at least two candidates, let \<open>w\<close> and
  \<open>r\<close> be the first two entries of the group after \<^verbatim>\<open>sort_values\<close>; together with \<open>rest\<close>
  they are the group's aggregated entries, no entry has more votes than \<open>w\<close>, and none of
  \<open>rest\<close> has more than \<open>r\<close>. The group's one row of app.py's margin table carries the
  wrapped difference of their totals: it is at least 0 exactly when the total of \<open>w\<close> exceeds
  that of \<open>r\<close> by less than \<open>2 ^ 63\<close>, so whenever no total of the group is negative, and it is
  0 only when the two totals are equal. The group's row in the pivot of v2app.py, whenever
  that table is built, carries the exact difference, which is at least 0, and 0 only when the
  two totals are equal.
\<close>

theorem margin_nonneg:
  assumes "2 \<le> length (group_entries data g)"
  shows "\<exists>w r rest.
           ranked_group data g = w # r # rest \<and>
           mset (w # r # rest) = mset (group_entries data g) \<and>
           (\<forall>x \<in> set (r # rest). Votes x \<le> Votes w) \<and>
           (\<forall>x \<in> set rest. Votes x \<le> Votes r) \<and>
           filter (\<lambda>m. group_M m = g) (get_margin_analysis data) = [margin_of (w, r)] \<and>
           (0 \<le> Margin (margin_of (w, r)) \<longleftrightarrow> Votes w - Votes r < 2 ^ 63) \<and>
           ((\<forall>e \<in> set (group_entries data g). 0 \<le> Votes e) \<longrightarrow> 0 \<le> Margin (margin_of (w, r))) \<and>
           (Margin (margin_of (w, r)) = 0 \<longleftrightarrow> Votes w = Votes r) \<and>
           (\<forall>rows. margin_pivot data = Inr rows \<longrightarrow>
              filter (\<lambda>p. group_P p = g) rows = [pivot_margin_of w (Some r)] \<and>
              0 \<le> Margin_P (pivot_margin_of w (Some r)) \<and>
              (Margin_P (pivot_margin_of w (Some r)) = 0 \<longleftrightarrow> Votes w = Votes r))"
proof -
  from assms obtain w r rest where G: "ranked_group data g = w # r # rest"
    using top_two_ge2 [of "ranked_group data g"] by (auto simp: length_ranked_group)
  have ms: "mset (w # r # rest) = mset (group_entries data g)"
    using mset_ranked_group [of data g] G by simp
  from ranked_group_desc [of data g] G
  have le: "\<forall>x \<in> set (r # rest). Votes x \<le> Votes w" "\<forall>x \<in> set rest. Votes x \<le> Votes r"
    by auto
  have app: "filter (\<lambda>m. group_M m = g) (get_margin_analysis data) = [margin_of (w, r)]"
    by (simp add: margin_rows_top_two G)
  have v2: "filter (\<lambda>p. group_P p = g) rows = [pivot_margin_of w (Some r)]"
    if "margin_pivot data = Inr rows" for rows
    using margin_pivot_rows [OF that, of g] by (simp add: G)
  from le have wr: "Votes r \<le> Votes w" by simp
  have mem: "w \<in> set (ranked_group data g)" "r \<in> set (ranked_group data g)"
    using G by simp_all
  then have i64: "int64 (Votes w)" "int64 (Votes r)"
    using ranked_group_subset agg_sum_int64 by blast+
  have m1: "0 \<le> Margin (margin_of (w, r)) \<longleftrightarrow> Votes w - Votes r < 2 ^ 63"
    using wrap64_diff(1) [OF i64 wr] by (simp add: margin_of_def)
  have m2: "Margin (margin_of (w, r)) = 0 \<longleftrightarrow> Votes w = Votes r"
    using wrap64_diff(2) [OF i64 wr] by (simp add: margin_of_def)
  have m3: "0 \<le> Margin (margin_of (w, r))" if "\<forall>e \<in> set (group_entries data g). 0 \<le> Votes e"
  proof -
    from that mem have "0 \<le> Votes r" by (simp add: set_ranked_group)
    with i64(1) have "Votes w - Votes r < 2 ^ 63"
      unfolding int64_def by linarith
    with m1 show ?thesis by simp
  qed
  from wr have m4: "0 \<le> Margin_P (pivot_margin_of w (Some r))"
    "Margin_P (pivot_margin_of w (Some r)) = 0 \<longleftrightarrow> Votes w = Votes r"
    by (auto simp: pivot_margin_of_def fillna_def)
  from G ms le app v2 m1 m2 m3 m4 show ?thesis by blast
qed

text \<open>The scenario of the specification: A 120, B 95, C 95 in unit 5, category General.\<close>

theorem margin_nonneg_witness:
  "filter (\<lambda>m. group_M m = (''5'', ''General''))
     (get_margin_analysis
        [vote ''5'' ''General'' ''A'' ''PartyX'' 120,
         vote ''5'' ''General'' ''B'' ''PartyY'' 95,
         vote ''5'' ''General'' ''C'' ''PartyX'' 95]) =
   [margin_of (entry ''5'' ''General'' ''A'' ''PartyX'' 120, entry ''5'' ''General'' ''B'' ''PartyY'' 95)] \<and>
   0 \<le> Margin (margin_of (entry ''5'' ''General'' ''A'' ''PartyX'' 120,
                            entry ''5'' ''General'' ''B'' ''PartyY'' 95))"
proof -
  let ?ex = "[vote ''5'' ''General'' ''A'' ''PartyX'' 120,
              vote ''5'' ''General'' ''B'' ''PartyY'' 95,
              vote ''5'' ''General'' ''C'' ''PartyX'' 95]"
  have h: "2 \<le> length (group_entries ?ex (''5'', ''General''))"
    by code_simp
  have rg: "ranked_group ?ex (''5'', ''General'') =
            [entry ''5'' ''General'' ''A'' ''PartyX'' 120,
             entry ''5'' ''General'' ''B'' ''PartyY'' 95,
             entry ''5'' ''General'' ''C'' ''PartyX'' 95]"
    by code_simp
  from margin_nonneg [OF h] obtain w r rest where
    G: "ranked_group ?ex (''5'', ''General'') = w # r # rest" and
    app: "filter (\<lambda>m. group_M m = (''5'', ''General'')) (get_margin_analysis ?ex) = [margin_of (w, r)]" and
    m: "0 \<le> Margin (margin_of (w, r)) \<longleftrightarrow> Votes w - Votes r < 2 ^ 63"
    by blast
  from G rg have w: "w = entry ''5'' ''General'' ''A'' ''PartyX'' 120"
    and r: "r = entry ''5'' ''General'' ''B'' ''PartyY'' 95"
    by simp_all
  from m have "0 \<le> Margin (margin_of (w, r))"
    unfolding w r by simp
  with app show ?thesis
    unfolding w r by (rule conjI)
qed

text \<open>
  Claim C10, as stated: for every group with at least two candidates the two versions
  produce the same margin. On the table above, where the difference of the two totals does
  not fit into int64, app.py returns the wrapped margin \<open>- 1\<close>, while in v2app.py
  \<^verbatim>\<open>.astype(int)\<close> raises OverflowError and no table is produced.
\<close>

theorem margin_versions_differ_on_overflow:
  "map Margin (get_margin_analysis
     [vote ''5'' ''General'' ''A'' ''PartyX'' 4611686018427387904,
      vote ''5'' ''General'' ''A'' ''PartyX'' 4611686018427387904,
      vote ''5'' ''General'' ''B'' ''PartyY'' 9223372036854775807]) = [- 1] \<and>
   margin_pivot
     [vote ''5'' ''General'' ''A'' ''PartyX'' 4611686018427387904,
      vote ''5'' ''General'' ''A'' ''PartyX'' 4611686018427387904,
      vote ''5'' ''General'' ''B'' ''PartyY'' 9223372036854775807] = Inl OverflowError"
  by code_simp

text \<open>
  Claim C10, amended: for every (unit, category) group with at least two candidates, the
  margin table of app.py (\<^verbatim>\<open>head(1)\<close> merged with \<^verbatim>\<open>nth(1)\<close>) has exactly one row for the
  group, and whenever v2app.py builds its pivot (\<^verbatim>\<open>head(2)\<close>, \<^verbatim>\<open>cumcount\<close>, \<^verbatim>\<open>pivot\<close>) that
  table too has exactly one row for the group, with the same winner name and party, the same
  runner-up name and party and the same margin. v2app.py builds its pivot whenever no
  aggregated total is negative; the one exception that can keep it from doing so is the
  OverflowError of a difference that does not fit into int64.
\<close>

theorem margin_versions_agree:
  assumes "2 \<le> length (group_entries data g)"
  shows "\<exists>m. filter (\<lambda>m. group_M m = g) (get_margin_analysis data) = [m] \<and>
           (\<forall>rows. margin_pivot data = Inr rows \<longrightarrow>
              (\<exists>p. filter (\<lambda>p. group_P p = g) rows = [p] \<and>
                   Winner p = Some (Name_W m) \<and> Win_Party p = Some (Party_W m) \<and>
                   RunnerUp p = Some (Name_R m) \<and> Run_Party p = Some (Party_R m) \<and>
                   Margin_P p = Margin m)) \<and>
           ((\<forall>e \<in> set (agg_sum data). 0 \<le> Votes e) \<longrightarrow> (\<exists>rows. margin_pivot data = Inr rows)) \<and>
           ((\<exists>rows. margin_pivot data = Inr rows) \<or> margin_pivot data = Inl OverflowError)"
proof -
  from assms obtain w r rest where G: "ranked_group data g = w # r # rest"
    using top_two_ge2 [of "ranked_group data g"] by (auto simp: length_ranked_group)
  then have tt: "top_two (ranked_group data g) = Some (w, Some r)"
    by simp
  from G have hr: "has_runner data"
    unfolding has_runner_def by (intro exI [of _ g]) simp
  have app: "filter (\<lambda>m. group_M m = g) (get_margin_analysis data) = [margin_of (w, r)]"
    by (simp add: margin_rows_top_two G)
  have v2: "\<exists>p. filter (\<lambda>p. group_P p = g) rows = [p] \<and>
              Winner p = Some (Name_W (margin_of (w, r))) \<and>
              Win_Party p = Some (Party_W (margin_of (w, r))) \<and>
              RunnerUp p = Some (Name_R (margin_of (w, r))) \<and>
              Run_Party p = Some (Party_R (margin_of (w, r))) \<and>
              Margin_P p = Margin (margin_of (w, r))"
    if rows: "margin_pivot data = Inr rows" for rows
  proof -
    have row: "filter (\<lambda>p. group_P p = g) rows = [pivot_margin_of w (Some r)]"
      using margin_pivot_rows [OF rows, of g] by (simp add: G)
    have "int64 (Votes w - Votes r)"
      using margin_pivot_fits [OF rows tt] by (simp add: fillna_def)
    then have "wrap64 (Votes w - Votes r) = Votes w - Votes r"
      by (rule wrap64_id)
    then have "Winner (pivot_margin_of w (Some r)) = Some (Name_W (margin_of (w, r)))"
      "Win_Party (pivot_margin_of w (Some r)) = Some (Party_W (margin_of (w, r)))"
      "RunnerUp (pivot_margin_of w (Some r)) = Some (Name_R (margin_of (w, r)))"
      "Run_Party (pivot_margin_of w (Some r)) = Some (Party_R (margin_of (w, r)))"
      "Margin_P (pivot_margin_of w (Some r)) = Margin (margin_of (w, r))"
      by (simp_all add: margin_of_def pivot_margin_of_def fillna_def)
    with row show ?thesis by blast
  qed
  have built: "\<exists>rows. margin_pivot data = Inr rows" if "\<forall>e \<in> set (agg_sum data). 0 \<le> Votes e"
    using margin_pivot_total(2) [OF hr] nonneg_fits [OF that] by blast
  from app v2 built margin_pivot_total(1) [OF hr] show ?thesis by blast
qed

text \<open>Both tables on the scenario of the specification.\<close>

theorem margin_versions_agree_witness:
  "\<exists>m p. filter (\<lambda>m. group_M m = (''5'', ''General''))
             (get_margin_analysis
                [vote ''5'' ''General'' ''A'' ''PartyX'' 120,
                 vote ''5'' ''General'' ''B'' ''PartyY'' 95,
                 vote ''5'' ''General'' ''C'' ''PartyX'' 95]) = [m] \<and>
          filter (\<lambda>p. group_P p = (''5'', ''General''))
             [pivot_margin_of (entry ''5'' ''General'' ''A'' ''PartyX'' 120)
                (Some (entry ''5'' ''General'' ''B'' ''PartyY'' 95))] = [p] \<and>
          Winner p = Some (Name_W m) \<and> Win_Party p = Some (Party_W m) \<and>
          RunnerUp p = Some (Name_R m) \<and> Run_Party p = Some (Party_R m) \<and>
          Margin_P p = Margin m"
proof -
  let ?ex = "[vote ''5'' ''General'' ''A'' ''PartyX'' 120,
              vote ''5'' ''General'' ''B'' ''PartyY'' 95,
              vote ''5'' ''General'' ''C'' ''PartyX'' 95]"
  let ?rows = "[pivot_margin_of (entry ''5'' ''General'' ''A'' ''PartyX'' 120)
                  (Some (entry ''5'' ''General'' ''B'' ''PartyY'' 95))]"
  have h: "2 \<le> length (group_entries ?ex (''5'', ''General''))"
    by code_simp
  have r: "margin_pivot ?ex = Inr ?rows"
    by code_simp
  from margin_versions_agree [OF h] obtain m where
    m: "filter (\<lambda>m. group_M m = (''5'', ''General'')) (get_margin_analysis ?ex) = [m]" and
    all: "\<forall>rows. margin_pivot ?ex = Inr rows \<longrightarrow>
              (\<exists>p. filter (\<lambda>p. group_P p = (''5'', ''General'')) rows = [p] \<and>
                   Winner p = Some (Name_W m) \<and> Win_Party p = Some (Party_W m) \<and>
                   RunnerUp p = Some (Name_R m) \<and> Run_Party p = Some (Party_R m) \<and>
                   Margin_P p = Margin m)"
    by blast
  from all r obtain p where
    "filter (\<lambda>p. group_P p = (''5'', ''General'')) ?rows = [p] \<and>
     Winner p = Some (Name_W m) \<and> Win_Party p = Some (Party_W m) \<and>
     RunnerUp p = Some (Name_R m) \<and> Run_Party p = Some (Party_R m) \<and>
     Margin_P p = Margin m"
    by blast
  with m show ?thesis by blast
qed

text \<open>
  Claim C1, as stated: a tie in total votes is broken by the original input order. In the
  input below C comes before B and both have 95 votes, yet both versions name B the
  runner-up: \<^verbatim>\<open>groupby(...).sum()\<close> has sorted the aggregated entries by their keys before
  \<^verbatim>\<open>sort_values\<close> ranks them, so the stable sort keeps B ahead of C.
\<close>

theorem tie_not_by_input_order:
  "get_margin_analysis
     [vote ''5'' ''General'' ''A'' ''PartyX'' 120,
      vote ''5'' ''General'' ''C'' ''PartyX'' 95,
      vote ''5'' ''General'' ''B'' ''PartyY'' 95] =
   [\<lparr> Prabhag_M = ''5'', Election_type_M = ''General'', Name_W = ''A'', Party_W = ''PartyX'',
      Votes_W = 120, Votes_R = 95, Party_R = ''PartyY'', Name_R = ''B'', Margin = 25 \<rparr>] \<and>
   margin_pivot
     [vote ''5'' ''General'' ''A'' ''PartyX'' 120,
      vote ''5'' ''General'' ''C'' ''PartyX'' 95,
      vote ''5'' ''General'' ''B'' ''PartyY'' 95] =
   Inr [pivot_margin_of (entry ''5'' ''General'' ''A'' ''PartyX'' 120)
          (Some (entry ''5'' ''General'' ''B'' ''PartyY'' 95))]"
  by code_simp

text \<open>
  Claim C1, amended: within a group the ranking is by total votes, descending, and a tie is
  broken by the order of the aggregated table, which is ascending (candidate name, party).
  The ranked group is a rearrangement of the group's aggregated entries; app.py's row for
  the group is made of its first two entries when there are two, and v2app.py's row of its
  first entry and, when present, its second. In particular, for the input rows (A, PartyX,
  120), (B, PartyY, 95), (C, PartyX, 95) the runner-up is B and the margin 25.
\<close>

theorem tie_break_by_name_and_party:
  "filter (\<lambda>m. group_M m = g) (get_margin_analysis data) =
     (case top_two (ranked_group data g) of Some (w, Some r) \<Rightarrow> [margin_of (w, r)] | _ \<Rightarrow> []) \<and>
   (\<forall>rows. margin_pivot data = Inr rows \<longrightarrow>
      filter (\<lambda>p. group_P p = g) rows =
        (case top_two (ranked_group data g) of None \<Rightarrow> []
         | Some (w, ro) \<Rightarrow> [pivot_margin_of w ro])) \<and>
   mset (ranked_group data g) = mset (group_entries data g) \<and>
   sorted_wrt (\<lambda>x y. Votes y < Votes x \<or>
                 (Votes x = Votes y \<and> (Name x, Party x) < (Name y, Party y)))
     (ranked_group data g)"
  using margin_rows_top_two [of g data] margin_pivot_rows [of data _ g]
        mset_ranked_group [of data g] ranked_group_order [of data g]
  by blast

text \<open>The scenario of the specification, through the theorem: runner-up B, margin 25.\<close>

theorem tie_break_by_name_and_party_witness:
  "filter (\<lambda>m. group_M m = (''5'', ''General''))
     (get_margin_analysis
        [vote ''5'' ''General'' ''A'' ''PartyX'' 120,
         vote ''5'' ''General'' ''B'' ''PartyY'' 95,
         vote ''5'' ''General'' ''C'' ''PartyX'' 95]) =
   [\<lparr> Prabhag_M = ''5'', Election_type_M = ''General'', Name_W = ''A'', Party_W = ''PartyX'',
      Votes_W = 120, Votes_R = 95, Party_R = ''PartyY'', Name_R = ''B'', Margin = 25 \<rparr>]"
proof -
  let ?ex = "[vote ''5'' ''General'' ''A'' ''PartyX'' 120,
              vote ''5'' ''General'' ''B'' ''PartyY'' 95,
              vote ''5'' ''General'' ''C'' ''PartyX'' 95]"
  have tt: "top_two (ranked_group ?ex (''5'', ''General'')) =
            Some (entry ''5'' ''General'' ''A'' ''PartyX'' 120,
                  Some (entry ''5'' ''General'' ''B'' ''PartyY'' 95))"
    by code_simp
  show ?thesis
    using tie_break_by_name_and_party [of "(''5'', ''General'')" ?ex]
    by (simp add: tt margin_of_def wrap64_def)
qed

subsection \<open>Aggregation\<close>

lemma sum_list_filter_mset:
  "sum_list (map val (filter P xs)) = sum_mset (image_mset val (filter_mset P (mset xs)))"
  by (induction xs) auto

lemma set_map_filter_mset:
  "mset xs = mset ys \<Longrightarrow> set (List.map_filter key xs) = set (List.map_filter key ys)"
  by (auto simp: map_filter_def dest: mset_eq_setD)

lemma groupby_sum_perm:
  assumes "mset df' = mset df"
  shows "groupby_sum key val df' = groupby_sum key val df"
proof -
  have "set (List.map_filter key df') = set (List.map_filter key df)"
    using assms by (rule set_map_filter_mset)
  then have "sort (remdups (List.map_filter key df')) = sort (remdups (List.map_filter key df))"
    by (metis sorted_list_of_set_sort_remdups)
  moreover have "sum_list (map val (filter P df')) = sum_list (map val (filter P df))" for P
    using assms by (simp add: sum_list_filter_mset)
  ultimately show ?thesis by (simp add: groupby_sum_def)
qed

text \<open>
  Claim C8: aggregation is order-independent. Any rearrangement of the input rows (the same
  rows with the same multiplicities) gives the identical aggregated table: the same entries,
  in the same order, with the same totals.
\<close>

theorem aggregation_order_independent:
  "mset data' = mset data \<Longrightarrow> agg_sum data' = agg_sum data"
  unfolding agg_sum_def by (simp only: groupby_sum_perm [of data' data])

lemma mset_swap: "mset (b # a # xs) = mset (a # b # xs)"
  by simp

text \<open>Three rows, two of them for candidate A, in two orders.\<close>

theorem aggregation_order_independent_witness:
  "agg_sum [vote ''5'' ''General'' ''B'' ''PartyY'' 95,
            vote ''5'' ''General'' ''A'' ''PartyX'' 100,
            vote ''5'' ''General'' ''A'' ''PartyX'' 20] =
   agg_sum [vote ''5'' ''General'' ''A'' ''PartyX'' 100,
            vote ''5'' ''General'' ''B'' ''PartyY'' 95,
            vote ''5'' ''General'' ''A'' ''PartyX'' 20] \<and>
   agg_sum [vote ''5'' ''General'' ''A'' ''PartyX'' 100,
            vote ''5'' ''General'' ''B'' ''PartyY'' 95,
            vote ''5'' ''General'' ''A'' ''PartyX'' 20] =
   [entry ''5'' ''General'' ''A'' ''PartyX'' 120, entry ''5'' ''General'' ''B'' ''PartyY'' 95]"
proof -
  have perm: "mset [vote ''5'' ''General'' ''B'' ''PartyY'' 95,
            vote ''5'' ''General'' ''A'' ''PartyX'' 100,
            vote ''5'' ''General'' ''A'' ''PartyX'' 20] =
        mset [vote ''5'' ''General'' ''A'' ''PartyX'' 100,
            vote ''5'' ''General'' ''B'' ''PartyY'' 95,
            vote ''5'' ''General'' ''A'' ''PartyX'' 20]"
    by (rule mset_swap)
  have val: "agg_sum [vote ''5'' ''General'' ''A'' ''PartyX'' 100,
            vote ''5'' ''General'' ''B'' ''PartyY'' 95,
            vote ''5'' ''General'' ''A'' ''PartyX'' 20] =
   [entry ''5'' ''General'' ''A'' ''PartyX'' 120, entry ''5'' ''General'' ''B'' ''PartyY'' 95]"
    by code_simp
  from aggregation_order_independent [OF perm] val show ?thesis by (rule conjI)
qed

subsection \<open>Reports: a rendering that fails\<close>

lemma report_loop_v2_pages:
  "report_loop_v2 render filtered_df pdf units = pdf @ map (report_page_v2 render filtered_df) units"
  by (induction units arbitrary: pdf) simp_all

text \<open>
  \<^verbatim>\<open>generate_pdf\<close> of v2app.py returns one page for every unit of the filtered frame, in
  sorted order, whatever the renderer does; where the renderer raises, the page holds the
  table of the unit's candidates.
\<close>

lemma generate_pdf_pages:
  assumes "py_sorted natural_sort_key (unique (map Prabhag (isin_filter prabhag_list party_list data))) =
           Inr units"
    and "units \<noteq> []"
  shows "generate_pdf render data prabhag_list party_list watermark_text =
         Inr (Some (map (report_page_v2 render (isin_filter prabhag_list party_list data)) units))"
  using assms by (simp add: generate_pdf_def report_loop_v2_pages)

lemma report_page_v2_fallback:
  assumes "render prabhag (chart_data_v2 (filter (\<lambda>r. Prabhag r = prabhag) filtered_df)) = Inl e"
  shows "report_page_v2 render filtered_df prabhag =
         \<lparr> title = ''Election Report: Prabhag '' @ prabhag,
           body = Fallback (fallback_text (chart_data_v2 (filter (\<lambda>r. Prabhag r = prabhag) filtered_df))) \<rparr>"
  using assms by (simp add: report_page_v2_def)

text \<open>The Full Result PDF of app.py is lost as soon as the renderer raises for one unit.\<close>

lemma result_loop_aborts:
  assumes "prabhag \<in> set units"
    and "render prabhag (groupby_sum key_name_party Votes (filter (\<lambda>r. Prabhag r = prabhag) f_df)) = Inl e"
  shows "\<exists>e'. result_loop render f_df pdf units = Inl e'"
  using assms by (induction units arbitrary: pdf) (auto split: sum.splits)

text \<open>
  Claim C5: when rendering fails for one unit, the composer puts a textual fallback page in
  its place instead of aborting, so the report still has a page for every selected unit. The
  units 6, 7 and 10 are selected and the renderer raises for unit 7 only. \<^verbatim>\<open>generate_pdf\<close>
  of v2app.py returns three pages, the one of unit 7 with the table of its candidates. The
  Full Result PDF of app.py, which calls the renderer outside any \<^verbatim>\<open>try\<close>, ends with the
  renderer's exception: there is no report, and the pages of units 6 and 10 are lost.
\<close>

theorem render_failure_aborts_full_result:
  "full_result_pdf (\<lambda>prabhag chart_data. if prabhag = ''7'' then Inl RenderError else Inr prabhag)
     [vote ''6'' ''General'' ''A'' ''PartyX'' 1200,
      vote ''7'' ''General'' ''B'' ''PartyY'' 950,
      vote ''7'' ''General'' ''C'' ''PartyX'' 1300,
      vote ''10'' ''General'' ''D'' ''PartyX'' 400]
     [''6'', ''7'', ''10''] [''PartyX'', ''PartyY''] ''Election Analysis 2025'' = Inl RenderError \<and>
   generate_pdf (\<lambda>prabhag chart_data. if prabhag = ''7'' then Inl RenderError else Inr prabhag)
     [vote ''6'' ''General'' ''A'' ''PartyX'' 1200,
      vote ''7'' ''General'' ''B'' ''PartyY'' 950,
      vote ''7'' ''General'' ''C'' ''PartyX'' 1300,
      vote ''10'' ''General'' ''D'' ''PartyX'' 400]
     [''6'', ''7'', ''10''] [''PartyX'', ''PartyY''] ''Election Analysis 2025'' =
   Inr (Some
     [\<lparr> title = ''Election Report: Prabhag 6'', body = Chart ''6'' \<rparr>,
      \<lparr> title = ''Election Report: Prabhag 7'',
        body = Fallback [''Candidate Vote Summary (Chart unavailable):'',
                         ''C (PartyX): 1,300 votes'', ''B (PartyY): 950 votes''] \<rparr>,
      \<lparr> title = ''Election Report: Prabhag 10'', body = Chart ''10'' \<rparr>])"
  by code_simp

subsection \<open>Reports: nothing selected\<close>

text \<open>
  Claim C6: when the unit and party filters select no rows, report composition returns an
  empty page sequence as a normal result, not an error. \<^verbatim>\<open>generate_pdf\<close> of v2app.py
  returns \<^verbatim>\<open>None\<close> before it opens a page, and the loop of the Full Result PDF of app.py
  ends without having opened one; neither raises, whatever the renderer would do.
\<close>

theorem empty_filter_no_pages:
  "isin_filter prabhag_list party_list data = [] \<Longrightarrow>
   generate_pdf render data prabhag_list party_list watermark_text = Inr None \<and>
   full_result_pdf render' data prabhag_list party_list watermark = Inr []"
  by (simp add: generate_pdf_def full_result_pdf_def unique_def py_sorted_def)

text \<open>The scenario of the specification: no unit is selected.\<close>

theorem empty_filter_no_pages_witness:
  "isin_filter [] [''PartyX'', ''PartyY''] [vote ''5'' ''General'' ''A'' ''PartyX'' 120,
      vote ''5'' ''General'' ''B'' ''PartyY'' 95,
      vote ''5'' ''General'' ''C'' ''PartyX'' 90] = [] \<and>
   generate_pdf (\<lambda>prabhag chart_data. Inl RenderError :: error + string) [vote ''5'' ''General'' ''A'' ''PartyX'' 120,
      vote ''5'' ''General'' ''B'' ''PartyY'' 95,
      vote ''5'' ''General'' ''C'' ''PartyX'' 90]
     [] [''PartyX'', ''PartyY''] ''Election Analysis 2025'' = Inr None \<and>
   full_result_pdf (\<lambda>prabhag chart_data. Inl RenderError :: error + string) [vote ''5'' ''General'' ''A'' ''PartyX'' 120,
      vote ''5'' ''General'' ''B'' ''PartyY'' 95,
      vote ''5'' ''General'' ''C'' ''PartyX'' 90]
     [] [''PartyX'', ''PartyY''] ''Election Analysis 2025'' = Inr []"
proof -
  have h: "isin_filter [] [''PartyX'', ''PartyY''] [vote ''5'' ''General'' ''A'' ''PartyX'' 120,
      vote ''5'' ''General'' ''B'' ''PartyY'' 95,
      vote ''5'' ''General'' ''C'' ''PartyX'' 90] = []"
    by (simp add: isin_filter_def)
  from empty_filter_no_pages [OF h] h show ?thesis
    by blast
qed

text \<open>With no unit selected the margin report of app.py has no page either.\<close>

lemma margin_report_no_units: "margin_report_pdf render df [] watermark = Inr []"
  by (simp add: margin_report_pdf_def)

subsection \<open>Reports: the filters\<close>

lemma map_filter_key4_unit:
  "List.map_filter key4 (filter (\<lambda>r. Prabhag r \<in> S) data) =
   filter (\<lambda>k. fst k \<in> S) (List.map_filter key4 data)"
  by (induction data) (auto simp: map_filter_simps key4_def split: option.splits)

lemma key4_unit: "key4 r = Some k \<Longrightarrow> Prabhag r = fst k"
  by (auto simp: key4_def split: option.splits)

text \<open>Keeping the rows of some units commutes with every step of the margin analysis.\<close>

lemma agg_sum_unit_filter:
  "agg_sum (filter (\<lambda>r. Prabhag r \<in> S) data) = filter (\<lambda>r. Prabhag r \<in> S) (agg_sum data)"
proof -
  let ?Q = "\<lambda>r::vote_row. Prabhag r \<in> S"
  let ?P = "\<lambda>k::string \<times> string \<times> string \<times> string. fst k \<in> S"
  let ?keys = "sort (remdups (List.map_filter key4 data))"
  have keys: "sort (remdups (List.map_filter key4 (filter ?Q data))) = filter ?P ?keys"
    by (simp add: map_filter_key4_unit remdups_filter filter_sort)
  have sums: "filter (\<lambda>r. key4 r = Some k) (filter ?Q data) = filter (\<lambda>r. key4 r = Some k) data"
    if "?P k" for k
    using that by (auto intro!: filter_cong dest: key4_unit)
  have "map (\<lambda>k. (k, wrap64 (sum_list (map Votes (filter (\<lambda>r. key4 r = Some k) (filter ?Q data))))))
          (filter ?P ?keys) =
        map (\<lambda>k. (k, wrap64 (sum_list (map Votes (filter (\<lambda>r. key4 r = Some k) data)))))
          (filter ?P ?keys)"
  proof (rule map_cong [OF refl])
    fix k
    assume "k \<in> set (filter ?P ?keys)"
    then have "?P k" by simp
    from sums [OF this]
    show "(k, wrap64 (sum_list (map Votes (filter (\<lambda>r. key4 r = Some k) (filter ?Q data))))) =
          (k, wrap64 (sum_list (map Votes (filter (\<lambda>r. key4 r = Some k) data))))"
      by (simp only:)
  qed
  then have "groupby_sum key4 Votes (filter ?Q data) =
        filter (\<lambda>kv. ?P (fst kv)) (groupby_sum key4 Votes data)"
    unfolding groupby_sum_def keys
    by (simp only: filter_map comp_def fst_conv)
  then show ?thesis
    by (simp add: agg_sum_def filter_map comp_def case_prod_unfold)
qed

lemma sort_values_filter: "sort_values (filter Q agg) = filter Q (sort_values agg)"
  by (simp add: sort_values_def filter_sort)

lemma zip_cumcount_filter:
  assumes "\<And>x y. key x = key y \<Longrightarrow> Q x = Q y"
  shows "zip (filter Q xs) (cumcount_from key (filter Q seen) (filter Q xs)) =
         filter (\<lambda>(x, c). Q x) (zip xs (cumcount_from key seen xs))"
proof (induction xs arbitrary: seen)
  case Nil
  then show ?case by simp
next
  case (Cons x xs)
  show ?case
  proof (cases "Q x")
    case True
    have "Q y" if "key y = key x" for y
      using assms [OF that] True by simp
    then have "filter (\<lambda>y. key y = key x) (filter Q seen) = filter (\<lambda>y. key y = key x) seen"
      by (auto intro!: filter_cong)
    with True Cons.IH [of "seen @ [x]"] show ?thesis by simp
  next
    case False
    with Cons.IH [of "seen @ [x]"] show ?thesis by simp
  qed
qed

lemma groupby_head_filter:
  assumes "\<And>x y. key x = key y \<Longrightarrow> Q x = Q y"
  shows "groupby_head key n (filter Q xs) = filter Q (groupby_head key n xs)"
proof -
  have "groupby_head key n (filter Q xs) =
        map fst (filter (\<lambda>(x, c). c < n) (filter (\<lambda>(x, c). Q x) (zip xs (cumcount_from key [] xs))))"
    using zip_cumcount_filter [where key = key and Q = Q and xs = xs and seen = "[]", OF assms]
    by (simp add: groupby_head_def groupby_cumcount_def)
  also have "\<dots> = filter Q (groupby_head key n xs)"
    by (simp add: groupby_head_def groupby_cumcount_def filter_map_fst_zip case_prod_unfold conj_commute)
  finally show ?thesis .
qed

lemma groupby_nth_filter:
  assumes "\<And>x y. key x = key y \<Longrightarrow> Q x = Q y"
  shows "groupby_nth key n (filter Q xs) = filter Q (groupby_nth key n xs)"
proof -
  have "groupby_nth key n (filter Q xs) =
        map fst (filter (\<lambda>(x, c). c = n) (filter (\<lambda>(x, c). Q x) (zip xs (cumcount_from key [] xs))))"
    using zip_cumcount_filter [where key = key and Q = Q and xs = xs and seen = "[]", OF assms]
    by (simp add: groupby_nth_def groupby_cumcount_def)
  also have "\<dots> = filter Q (groupby_nth key n xs)"
    by (simp add: groupby_nth_def groupby_cumcount_def filter_map_fst_zip case_prod_unfold conj_commute)
  finally show ?thesis .
qed

lemma pd_merge_filter:
  assumes "\<And>x y. on x = on y \<Longrightarrow> Q x = Q y"
  shows "pd_merge on (filter Q left) (filter Q right) =
         filter (\<lambda>(l, r). Q l) (pd_merge on left right)"
proof (induction left)
  case Nil
  then show ?case by (simp add: pd_merge_def)
next
  case (Cons l left)
  have "Q r" if "Q l" "on r = on l" for r
    using assms [OF that(2)] that(1) by simp
  then have "filter (\<lambda>r. on r = on l) (filter Q right) = filter (\<lambda>r. on r = on l) right" if "Q l"
    using that by (auto intro!: filter_cong)
  with Cons show ?case
    by (auto simp: pd_merge_def filter_map comp_def)
qed

lemma get_margin_analysis_unit_filter:
  "get_margin_analysis (filter (\<lambda>r. Prabhag r \<in> S) data) =
   filter (\<lambda>m. Prabhag_M m \<in> S) (get_margin_analysis data)"
proof -
  let ?Q = "\<lambda>r::agg_row. Prabhag r \<in> S"
  have resp: "key2 x = key2 y \<Longrightarrow> ?Q x = ?Q y" for x y
    by (simp add: key2_def)
  have "Prabhag_M (margin_of wr) = Prabhag (fst wr)" for wr
    by (cases wr) (simp add: margin_of_def)
  then show ?thesis
    by (simp add: get_margin_analysis_def Let_def agg_sum_unit_filter sort_values_filter
        groupby_head_filter [OF resp] groupby_nth_filter [OF resp] pd_merge_filter [OF resp]
        filter_map comp_def case_prod_unfold)
qed

lemma isin_filter_idem:
  "isin_filter prabhag_list party_list (isin_filter prabhag_list party_list data) =
   isin_filter prabhag_list party_list data"
  by (simp add: isin_filter_def)

text \<open>
  Claim C7, as stated: report composition, the margin-report variant included, restricts the
  input rows to the selected units and the selected parties before any aggregation. The
  margin report of app.py takes no list of parties. With unit 5 selected and PartyX the one
  selected party, its page for the table below names B of PartyY as runner-up, with margin
  25; had the rows been restricted to PartyX first, the runner-up would be C and the margin
  30.
\<close>

theorem margin_report_ignores_party_filter:
  "margin_report_pdf (\<lambda>etype type_df. Inr type_df) [vote ''5'' ''General'' ''A'' ''PartyX'' 120,
      vote ''5'' ''General'' ''B'' ''PartyY'' 95,
      vote ''5'' ''General'' ''C'' ''PartyX'' 90]
     [''5''] ''Election Analysis 2025'' =
   Inr [\<lparr> title = ''Margin Report: General'',
          body = Chart [\<lparr> Prabhag_M = ''5'', Election_type_M = ''General'', Name_W = ''A'',
                          Party_W = ''PartyX'', Votes_W = 120, Votes_R = 95, Party_R = ''PartyY'',
                          Name_R = ''B'', Margin = 25 \<rparr>] \<rparr>] \<and>
   margin_report_pdf (\<lambda>etype type_df. Inr type_df)
     (isin_filter [''5''] [''PartyX''] [vote ''5'' ''General'' ''A'' ''PartyX'' 120,
      vote ''5'' ''General'' ''B'' ''PartyY'' 95,
      vote ''5'' ''General'' ''C'' ''PartyX'' 90])
     [''5''] ''Election Analysis 2025'' =
   Inr [\<lparr> title = ''Margin Report: General'',
          body = Chart [\<lparr> Prabhag_M = ''5'', Election_type_M = ''General'', Name_W = ''A'',
                          Party_W = ''PartyX'', Votes_W = 120, Votes_R = 90, Party_R = ''PartyX'',
                          Name_R = ''C'', Margin = 30 \<rparr>] \<rparr>]"
  by code_simp

text \<open>
  Claim C7, amended: the two unit reports (\<^verbatim>\<open>generate_pdf\<close> of v2app.py and the Full Result
  PDF of app.py) restrict the input rows to the selected units and the selected parties
  before any aggregation: each returns what it returns on the restricted rows. The margin
  report of app.py, which has one page for every category, aggregates and ranks all rows and
  then keeps the margin rows of the selected units; that is the report of the rows restricted
  to the selected units, and the selected parties play no part in it.
\<close>

theorem reports_filter_before_aggregation:
  "generate_pdf render data prabhag_list party_list watermark_text =
     generate_pdf render (isin_filter prabhag_list party_list data) prabhag_list party_list watermark_text \<and>
   full_result_pdf render' data prabhag_list party_list watermark =
     full_result_pdf render' (isin_filter prabhag_list party_list data) prabhag_list party_list watermark \<and>
   margin_report_pdf render'' data prabhag_list watermark =
     margin_report_pdf render'' (filter (\<lambda>r. Prabhag r \<in> set prabhag_list) data) prabhag_list watermark"
  by (simp add: generate_pdf_def full_result_pdf_def margin_report_pdf_def isin_filter_idem
      get_margin_analysis_unit_filter)

end
